theory Spec2Isabelle
  imports Main "HOL-Library.Sublist"
begin

section \<open>Strings\<close>

text \<open>
  A \<^typ>\<open>char\<close> stands for one code unit of a JavaScript string (the code units below 256).
  The character classes are the ones the regular expressions of \<^verbatim>\<open>bin/index.js\<close> name:
  \<^verbatim>\<open>[a-zA-Z0-9]\<close>, \<^verbatim>\<open>[a-z0-9]\<close>, \<^verbatim>\<open>\s\<close> and the complement of \<^verbatim>\<open>.\<close> (the line terminators).
\<close>

definition lowerLetters :: string where
  "lowerLetters = ''abcdefghijklmnopqrstuvwxyz''"

definition upperLetters :: string where
  "upperLetters = ''ABCDEFGHIJKLMNOPQRSTUVWXYZ''"

definition digits :: string where
  "digits = ''0123456789''"

definition isAlnum :: "char \<Rightarrow> bool" where
  "isAlnum c = (c \<in> set (lowerLetters @ upperLetters @ digits))"

definition isLowerAlnum :: "char \<Rightarrow> bool" where
  "isLowerAlnum c = (c \<in> set (lowerLetters @ digits))"

definition isSpace :: "char \<Rightarrow> bool" where
  "isSpace c = (c \<in> set [CHR 0x09, CHR 0x0A, CHR 0x0B, CHR 0x0C, CHR 0x0D, CHR '' '', CHR 0xA0])"

definition isLineTerminator :: "char \<Rightarrow> bool" where
  "isLineTerminator c = (c \<in> set [CHR 0x0A, CHR 0x0D])"

definition toLowerChar :: "char \<Rightarrow> char" where
  "toLowerChar c = (case map_of (zip upperLetters lowerLetters) c of Some l \<Rightarrow> l | None \<Rightarrow> c)"

definition toLowerCase :: "string \<Rightarrow> string" where
  "toLowerCase s = map toLowerChar s"

definition trim :: "string \<Rightarrow> string" where
  "trim s = rev (dropWhile isSpace (rev (dropWhile isSpace s)))"

definition startsWith :: "string \<Rightarrow> string \<Rightarrow> bool" where
  "startsWith s p = prefix p s"

text \<open>
  \<^verbatim>\<open>path.join(relativePath, entry.name)\<close> on names as \<^verbatim>\<open>readdirSync\<close> returns them
  (POSIX separator): the empty relative path contributes nothing.
\<close>

definition path_join :: "string \<Rightarrow> string \<Rightarrow> string" where
  "path_join rel name = (if rel = [] then name else rel @ ''/'' @ name)"

text \<open>The text before, and the text after, the leftmost occurrence of a pattern.\<close>

fun before_first :: "string \<Rightarrow> string \<Rightarrow> string option" where
  "before_first pat [] = (if pat = [] then Some [] else None)"
| "before_first pat (c # cs) =
     (if prefix pat (c # cs) then Some []
      else map_option ((#) c) (before_first pat cs))"

fun after_first :: "string \<Rightarrow> string \<Rightarrow> string option" where
  "after_first pat [] = (if pat = [] then Some [] else None)"
| "after_first pat (c # cs) =
     (if prefix pat (c # cs) then Some (drop (length pat) (c # cs))
      else after_first pat cs)"

section \<open>Data model\<close>

type_synonym timestamp = nat

record kit_info =
  source :: string
  installedAt :: timestamp
  files :: "string list"
  lastUpdated :: "timestamp option"

record file_info =
  kit :: string
  updatedAt :: timestamp

text \<open>
  The registry document \<^verbatim>\<open>{ kits: {}, files: {} }\<close>. Both JavaScript objects are read and
  written by key only, so they are finite maps of their own properties (a key that names a
  property of \<^verbatim>\<open>Object.prototype\<close>, such as \<^verbatim>\<open>__proto__\<close>, is outside the model). The field
  \<open>owners\<close> is the document's \<^verbatim>\<open>files\<close> map; \<open>files\<close> is the list of a kit entry.
\<close>

record registry =
  kits :: "string \<rightharpoonup> kit_info"
  owners :: "string \<rightharpoonup> file_info"

record skill =
  skill_id :: string
  skill_path :: string
  skill_category :: string
  skill_name :: string
  skill_description :: string
  skill_risk :: string
  skill_source :: string

text \<open>
  A file holds text that is not JSON, or the JSON text of a registry or of a skills index;
  the two JSON documents are kept as the values they parse to. A registry document has both
  of its members and every kit entry has its list: a JSON document of another shape (an
  object without \<^verbatim>\<open>files\<close>, say) is outside the model. A directory is its listing, in the
  order \<^verbatim>\<open>readdirSync\<close> returns it. Names are compared exactly (a case-sensitive file
  system).
\<close>

datatype content = Text string | RegistryJson registry | IndexJson "skill list"

datatype node = File content | Dir "(string \<times> node) list"

text \<open>What \<^verbatim>\<open>JSON.parse\<close> returns on the two kinds of document.\<close>

datatype json = JRegistry registry | JIndex "skill list"

datatype error =
    NoAgentFolder
  | ENOENT
  | ENOTDIR
  | EISDIR
  | SyntaxError
  | TypeError
  | ReferenceError

type_synonym entries = "(string \<times> node) list"

fun esize :: "entries \<Rightarrow> nat" where
  "esize es = size_list (size_prod (\<lambda>_. 0) size) es"

text \<open>\<^verbatim>\<open>fs.existsSync(path.join(dir, name))\<close>: false too when \<open>dir\<close> is not a directory.\<close>

definition lookup :: "node \<Rightarrow> string \<Rightarrow> node option" where
  "lookup d name = (case d of File _ \<Rightarrow> None | Dir es \<Rightarrow> map_of es name)"

definition existsSync :: "node \<Rightarrow> string \<Rightarrow> bool" where
  "existsSync d name = (lookup d name \<noteq> None)"

text \<open>Replacing the entry of a name in a listing, or adding it at the end.\<close>

fun put_entry :: "string \<Rightarrow> node \<Rightarrow> entries \<Rightarrow> entries" where
  "put_entry name n [] = [(name, n)]"
| "put_entry name n ((k, v) # es) =
     (if k = name then (name, n) # es else (k, v) # put_entry name n es)"

definition put :: "node \<Rightarrow> string \<Rightarrow> node \<Rightarrow> node" where
  "put d name n = (case d of File c \<Rightarrow> File c | Dir es \<Rightarrow> Dir (put_entry name n es))"

text \<open>
  \<^verbatim>\<open>fs.writeFileSync\<close> and the write half of \<^verbatim>\<open>fs.copyFileSync\<close> into directory \<open>d\<close>:
  the parent must be a directory and the name must not be one.
\<close>

definition writeFileSync :: "node \<Rightarrow> string \<Rightarrow> content \<Rightarrow> error + node" where
  "writeFileSync d name c =
     (case d of
        File _ \<Rightarrow> Inl ENOTDIR
      | Dir es \<Rightarrow>
          (case map_of es name of
             Some (Dir _) \<Rightarrow> Inl EISDIR
           | _ \<Rightarrow> Inr (Dir (put_entry name (File c) es))))"

definition readFileSync :: "node \<Rightarrow> string \<Rightarrow> error + content" where
  "readFileSync d name =
     (case lookup d name of
        None \<Rightarrow> Inl ENOENT
      | Some (Dir _) \<Rightarrow> Inl EISDIR
      | Some (File c) \<Rightarrow> Inr c)"

section \<open>Registry Store\<close>

definition REGISTRY_FILE :: string where
  "REGISTRY_FILE = ''.sync-registry.json''"

definition AGENT_FOLDER :: string where
  "AGENT_FOLDER = ''.agent''"

definition emptyRegistry :: registry where
  "emptyRegistry = \<lparr> kits = Map.empty, owners = Map.empty \<rparr>"

definition JSON_parse :: "content \<Rightarrow> error + json" where
  "JSON_parse c =
     (case c of
        Text _ \<Rightarrow> Inl SyntaxError
      | RegistryJson r \<Rightarrow> Inr (JRegistry r)
      | IndexJson xs \<Rightarrow> Inr (JIndex xs))"

text \<open>
  \<^verbatim>\<open>loadRegistry\<close>: the empty registry when the file is absent; otherwise whatever
  \<^verbatim>\<open>JSON.parse\<close> makes of the file, with no check that it is a registry.
\<close>

definition loadRegistry :: "node \<Rightarrow> error + json" where
  "loadRegistry globalDir =
     (if \<not> existsSync globalDir REGISTRY_FILE then Inr (JRegistry emptyRegistry)
      else (case readFileSync globalDir REGISTRY_FILE of
              Inl e \<Rightarrow> Inl e
            | Inr c \<Rightarrow> JSON_parse c))"

definition saveRegistry :: "node \<Rightarrow> registry \<Rightarrow> error + node" where
  "saveRegistry globalDir r = writeFileSync globalDir REGISTRY_FILE (RegistryJson r)"

section \<open>Directory Merger\<close>

text \<open>\<^verbatim>\<open>repoSource.replace(/[^a-zA-Z0-9]/g, '_')\<close>\<close>

definition kitId_of :: "string \<Rightarrow> string" where
  "kitId_of repoSource = map (\<lambda>c. if isAlnum c then c else CHR ''_'') repoSource"

definition commonFolders :: "string list" where
  "commonFolders = [''skills'', ''workflows'', ''rules'', ''scripts'', ''docs'', ''assets'']"

definition exclude :: "string list" where
  "exclude = [''.git'', ''.github'', ''node_modules'', ''package.json'',
     ''package-lock.json'', ''.gitignore'', ''README.md'', ''LICENSE'',
     ''packages'', ''assets'', ''mcp_config.json'', ''skills_index.json'',
     ''.sync-registry.json'', ''SECURITY.md'', ''release_notes.md'',
     ''CONTRIBUTING.md'', ''CHANGELOG.md'', ''CATALOG.md'']"

definition globalFolderExclusions :: "string list" where
  "globalFolderExclusions = [''docs'', ''bin'', ''lib'', ''packages'']"

definition globalFileExclusions :: "string list" where
  "globalFileExclusions = [''SECURITY.md'', ''release_notes.md'', ''CONTRIBUTING.md'',
     ''CHANGELOG.md'', ''CATALOG.md'']"

text \<open>The three \<^verbatim>\<open>continue\<close> tests at the head of the loop body of \<^verbatim>\<open>copyRecursive\<close>.\<close>

definition skipped :: "bool \<Rightarrow> string \<Rightarrow> string \<Rightarrow> bool" where
  "skipped isRootSync relativePath name =
     ((isRootSync \<and> relativePath = [] \<and> name \<in> set exclude)
      \<or> name \<in> set globalFolderExclusions
      \<or> name \<in> set globalFileExclusions)"

text \<open>
  The state the closure \<^verbatim>\<open>copyRecursive\<close> works on: the in-memory registry and the clock.
  The clock counts the reads: the n-th \<^verbatim>\<open>new Date()\<close> of a run yields n. (Two real reads
  may yield the same instant; nothing below relies on successive reads being different.)
\<close>

record cstate =
  reg :: registry
  clock :: timestamp

text \<open>
  The statements after a successful \<^verbatim>\<open>copyFileSync\<close>, inside the \<^verbatim>\<open>try\<close>: the ownership
  entry is assigned, then the path is pushed unless the kit's list includes it. Were the
  kit entry missing, the property access would raise inside the \<^verbatim>\<open>try\<close> after the
  assignment.
\<close>

definition pushUnique :: "string \<Rightarrow> string list \<Rightarrow> string list" where
  "pushUnique relPath fs = (if relPath \<in> set fs then fs else fs @ [relPath])"

definition track :: "string \<Rightarrow> string \<Rightarrow> cstate \<Rightarrow> cstate" where
  "track kitId relPath st =
     (let r = reg st;
          r1 = r\<lparr> owners := (owners r)(relPath \<mapsto> \<lparr> kit = kitId, updatedAt = clock st \<rparr>) \<rparr>;
          r2 = (case kits r1 kitId of
                  None \<Rightarrow> r1
                | Some k \<Rightarrow>
                    r1\<lparr> kits := (kits r1)(kitId \<mapsto> k\<lparr> files := pushUnique relPath (files k) \<rparr>) \<rparr>)
      in \<lparr> reg = r2, clock = Suc (clock st) \<rparr>)"

text \<open>
  \<^verbatim>\<open>fs.copyFileSync(srcPath, destPath)\<close> for the entry \<open>name\<close> of the destination
  directory \<open>dest\<close>. It raises when the path is locked or not permitted (the set \<open>locked\<close>
  of relative paths), when \<open>dest\<close> is not a directory, and when the destination is a
  directory; \<open>None\<close> is the raise, which the caller catches. A call that returns has written
  the file, and is entered in \<open>log\<close>, the list of the relative paths whose copy returned
  normally. The log is not a variable of the program; it records the event "the copy of
  this path succeeded", and only this function writes it.
\<close>

definition copyFileSync ::
  "string set \<Rightarrow> string \<Rightarrow> content \<Rightarrow> node \<Rightarrow> string \<Rightarrow> string list
     \<Rightarrow> (node \<times> string list) option" where
  "copyFileSync locked relPath c dest name log =
     (if relPath \<in> locked then None
      else (case writeFileSync dest name c of
              Inl _ \<Rightarrow> None
            | Inr d \<Rightarrow> Some (d, log @ [relPath])))"

text \<open>
  The directory branch up to the recursive call: \<^verbatim>\<open>existsSync(destPath)\<close>, else
  \<^verbatim>\<open>mkdirSync(destPath, { recursive: true })\<close>, which raises when \<open>dest\<close> is a file.
  The result is the node at \<open>destPath\<close> the recursion copies into.
\<close>

definition enterDir :: "node \<Rightarrow> string \<Rightarrow> error + node" where
  "enterDir dest name =
     (case lookup dest name of
        Some n \<Rightarrow> Inr n
      | None \<Rightarrow> (case dest of File _ \<Rightarrow> Inl ENOTDIR | Dir _ \<Rightarrow> Inr (Dir [])))"

text \<open>
  \<^verbatim>\<open>copyRecursive(src, dest, relativePath)\<close>, given the listing of \<open>src\<close>, the node at
  \<open>dest\<close> and the log of copies so far. The result is the error that left the loop (if
  any), the node at \<open>dest\<close>, the log and the state, as they are at that moment.
\<close>

function copyRecursive ::
  "bool \<Rightarrow> string \<Rightarrow> string set \<Rightarrow> entries \<Rightarrow> node \<Rightarrow> string list \<Rightarrow> string \<Rightarrow> cstate
     \<Rightarrow> error option \<times> node \<times> string list \<times> cstate" where
  "copyRecursive isRootSync kitId locked [] dest log relativePath st = (None, dest, log, st)"
| "copyRecursive isRootSync kitId locked ((name, File c) # rest) dest log relativePath st =
     (if skipped isRootSync relativePath name
      then copyRecursive isRootSync kitId locked rest dest log relativePath st
      else (case copyFileSync locked (path_join relativePath name) c dest name log of
              Some (dest', log') \<Rightarrow>
                copyRecursive isRootSync kitId locked rest dest' log' relativePath
                  (track kitId (path_join relativePath name) st)
            | None \<Rightarrow> copyRecursive isRootSync kitId locked rest dest log relativePath st))"
| "copyRecursive isRootSync kitId locked ((name, Dir sub) # rest) dest log relativePath st =
     (if skipped isRootSync relativePath name
      then copyRecursive isRootSync kitId locked rest dest log relativePath st
      else (case enterDir dest name of
              Inl e \<Rightarrow> (Some e, dest, log, st)
            | Inr child \<Rightarrow>
                (case copyRecursive isRootSync kitId locked sub child log
                        (path_join relativePath name) st of
                   (Some e, child', log', st') \<Rightarrow> (Some e, put dest name child', log', st')
                 | (None, child', log', st') \<Rightarrow>
                     copyRecursive isRootSync kitId locked rest (put dest name child') log'
                       relativePath st')))"
  by pat_completeness auto
termination
  by (relation "measure (\<lambda>(r, k, l, es, d, g, p, s). esize es)") auto

text \<open>
  The choice of the source root at the head of \<^verbatim>\<open>mergeAgentFolder\<close>: the node at
  \<^verbatim>\<open>tempDir/.agent\<close> when that path exists, the root with \<^verbatim>\<open>isRootSync\<close> set when one of
  the common folders exists, and otherwise the raise.
\<close>

definition sourceRoot :: "node \<Rightarrow> (node \<times> bool) option" where
  "sourceRoot tempDir =
     (case lookup tempDir AGENT_FOLDER of
        Some n \<Rightarrow> Some (n, False)
      | None \<Rightarrow>
          if list_ex (\<lambda>folder. existsSync tempDir folder) commonFolders
          then Some (tempDir, True) else None)"

text \<open>
  The world a merge runs in: the target directory (absent, or the node there), the clock,
  the paths whose copy fails, and the log of copies of the latest merge that reached the
  copy loop.
\<close>

record world =
  target :: "node option"
  now :: timestamp
  lockedPaths :: "string set"
  lastCopied :: "string list"

definition globalDirOf :: "world \<Rightarrow> node" where
  "globalDirOf w = (case target w of None \<Rightarrow> Dir [] | Some d \<Rightarrow> d)"

text \<open>The kit entry after the lines that create it when absent and set \<^verbatim>\<open>lastUpdated\<close>.\<close>

definition openKit :: "string \<Rightarrow> string \<Rightarrow> registry \<Rightarrow> timestamp \<Rightarrow> registry \<times> timestamp" where
  "openKit kitId repoSource r t =
     (case kits r kitId of
        None \<Rightarrow>
          (r\<lparr> kits := (kits r)(kitId \<mapsto>
               \<lparr> source = repoSource, installedAt = t, files = [], lastUpdated = Some (Suc t) \<rparr>) \<rparr>,
           Suc (Suc t))
      | Some k \<Rightarrow>
          (r\<lparr> kits := (kits r)(kitId \<mapsto> k\<lparr> lastUpdated := Some t \<rparr>) \<rparr>, Suc t))"

definition mergeAgentFolder :: "node \<Rightarrow> world \<Rightarrow> string \<Rightarrow> error option \<times> world" where
  "mergeAgentFolder tempDir w repoSource =
     (case sourceRoot tempDir of
        None \<Rightarrow> (Some NoAgentFolder, w)
      | Some (sourceAgent, isRootSync) \<Rightarrow>
          (let globalDir = globalDirOf w;
               w1 = w\<lparr> target := Some globalDir \<rparr>
           in case loadRegistry globalDir of
                Inl e \<Rightarrow> (Some e, w1)
              | Inr (JIndex _) \<Rightarrow> (Some TypeError, w1)
              | Inr (JRegistry registry) \<Rightarrow>
                  (let kitId = kitId_of repoSource;
                       (r1, t1) = openKit kitId repoSource registry (now w)
                   in case sourceAgent of
                        File _ \<Rightarrow> (Some ENOTDIR, w1\<lparr> now := t1 \<rparr>)
                      | Dir es \<Rightarrow>
                          (case copyRecursive isRootSync kitId (lockedPaths w) es globalDir [] []
                                  \<lparr> reg = r1, clock = t1 \<rparr> of
                             (Some e, d, log, st) \<Rightarrow>
                               (Some e, w\<lparr> target := Some d, now := clock st,
                                            lastCopied := log \<rparr>)
                           | (None, d, log, st) \<Rightarrow>
                               (case saveRegistry d (reg st) of
                                  Inl e \<Rightarrow>
                                    (Some e, w\<lparr> target := Some d, now := clock st,
                                                 lastCopied := log \<rparr>)
                                | Inr d' \<Rightarrow>
                                    (None, w\<lparr> target := Some d', now := clock st,
                                               lastCopied := log \<rparr>))))))"

text \<open>
  The loop of \<^verbatim>\<open>syncCommand\<close> over \<^verbatim>\<open>kitsToSync\<close>. Each source comes with what the download
  helper produced for it (\<open>None\<close> when the download raised); the \<^verbatim>\<open>try\<close> around download
  and merge catches every error and the loop goes on with the next source. Nothing else in
  the loop touches the target directory.
\<close>

fun syncLoop :: "(string \<times> node option) list \<Rightarrow> world \<Rightarrow> world" where
  "syncLoop [] w = w"
| "syncLoop ((src, None) # rest) w = syncLoop rest w"
| "syncLoop ((src, Some tmpDir) # rest) w = syncLoop rest (snd (mergeAgentFolder tmpDir w src))"

section \<open>Notions the claims about the merge are stated with\<close>

text \<open>
  The relative paths of the files the copy loop reaches in a source listing: the files that
  are not excluded, in the directories that are not excluded, in the order of the loop.
\<close>

function reachedFiles :: "bool \<Rightarrow> string \<Rightarrow> entries \<Rightarrow> string list" where
  "reachedFiles isRootSync rel [] = []"
| "reachedFiles isRootSync rel ((name, File c) # rest) =
     (if skipped isRootSync rel name then [] else [path_join rel name])
     @ reachedFiles isRootSync rel rest"
| "reachedFiles isRootSync rel ((name, Dir sub) # rest) =
     (if skipped isRootSync rel name then [] else reachedFiles isRootSync (path_join rel name) sub)
     @ reachedFiles isRootSync rel rest"
  by pat_completeness auto
termination
  by (relation "measure (\<lambda>(r, p, es). esize es)") auto

text \<open>A listing as a file system gives it: no name twice in a directory.\<close>

function distinctNames :: "entries \<Rightarrow> bool" where
  "distinctNames [] = True"
| "distinctNames ((name, File c) # rest) = (name \<notin> fst ` set rest \<and> distinctNames rest)"
| "distinctNames ((name, Dir sub) # rest) =
     (name \<notin> fst ` set rest \<and> distinctNames sub \<and> distinctNames rest)"
  by pat_completeness auto
termination
  by (relation "measure esize") auto

text \<open>
  A destination that has no directory where the source has a file, and no file where the
  source has a directory: then no copy and no \<^verbatim>\<open>mkdirSync\<close> fails for the shape of the
  destination.
\<close>

function admitsEntries :: "entries \<Rightarrow> entries \<Rightarrow> bool" where
  "admitsEntries [] des = True"
| "admitsEntries ((name, File c) # rest) des =
     ((case map_of des name of Some (Dir ds) \<Rightarrow> False | _ \<Rightarrow> True) \<and> admitsEntries rest des)"
| "admitsEntries ((name, Dir sub) # rest) des =
     ((case map_of des name of
         None \<Rightarrow> True
       | Some (File c) \<Rightarrow> False
       | Some (Dir ds) \<Rightarrow> admitsEntries sub ds) \<and> admitsEntries rest des)"
  by pat_completeness auto
termination
  by (relation "measure (\<lambda>(es, des). esize es)") auto

definition admits :: "entries \<Rightarrow> node \<Rightarrow> bool" where
  "admits es dest = (case dest of File c \<Rightarrow> False | Dir des \<Rightarrow> admitsEntries es des)"

section \<open>Skill Indexer\<close>

text \<open>Group 1 of \<^verbatim>\<open>content.match(/^---\n([\s\S]*?)\n---/)\<close>.\<close>

definition fmMatch :: "string \<Rightarrow> string option" where
  "fmMatch text =
     (if prefix ''---\<newline>'' text then before_first ''\<newline>---'' (drop 4 text) else None)"

text \<open>Group 1 of \<^verbatim>\<open>fm.match(/name:\s*(.*)/)\<close> and of \<^verbatim>\<open>fm.match(/description:\s*(.*)/)\<close>.\<close>

definition fieldMatch :: "string \<Rightarrow> string \<Rightarrow> string option" where
  "fieldMatch key fm =
     map_option (\<lambda>r. takeWhile (\<lambda>c. \<not> isLineTerminator c) (dropWhile isSpace r))
       (after_first (key @ '':'') fm)"

text \<open>
  The frontmatter match on what \<^verbatim>\<open>readFileSync\<close> returned. The text of a JSON document
  written by this program starts with a brace or a bracket, so the match fails on it.
\<close>

definition frontmatter :: "content \<Rightarrow> string option" where
  "frontmatter c = (case c of Text s \<Rightarrow> fmMatch s | _ \<Rightarrow> None)"

text \<open>
  The local variables \<^verbatim>\<open>name\<close> and \<^verbatim>\<open>description\<close> after the frontmatter extraction: the
  folder name and the empty string unless the block and the field match.
\<close>

definition frontmatterFields :: "string \<Rightarrow> content \<Rightarrow> string \<times> string" where
  "frontmatterFields folderName c =
     (let fm = frontmatter c;
          nameMatch = (case fm of None \<Rightarrow> None | Some b \<Rightarrow> fieldMatch ''name'' b);
          descMatch = (case fm of None \<Rightarrow> None | Some b \<Rightarrow> fieldMatch ''description'' b)
      in (case nameMatch of None \<Rightarrow> folderName | Some v \<Rightarrow> trim v,
          case descMatch of None \<Rightarrow> [] | Some v \<Rightarrow> trim v))"

text \<open>
  The entry for \<^verbatim>\<open>skills.push\<close>. The line that is meant to declare the path has no space
  after \<^verbatim>\<open>const\<close>: the keyword and the two ideographs that follow it form one identifier,
  so the line assigns the path to that undeclared identifier (the script is not in strict
  mode). The object literal then evaluates its \<^verbatim>\<open>id\<close> and next reads the identifier without
  the \<^verbatim>\<open>const\<close> prefix, which nothing declares: evaluating the literal raises
  \<^verbatim>\<open>ReferenceError\<close>, for every skill folder, before anything is pushed.
\<close>

definition skillEntry :: "string \<Rightarrow> string \<Rightarrow> content \<Rightarrow> error + skill" where
  "skillEntry folderName parentCategory c =
     (let (name, description) = frontmatterFields folderName c;
          assigned = (if parentCategory \<noteq> []
                      then ''.agent/skills/'' @ parentCategory @ ''/'' @ folderName
                      else ''.agent/skills/'' @ folderName);
          id = map (\<lambda>ch. if isLowerAlnum ch then ch else CHR ''-'') (toLowerCase folderName)
      in Inl ReferenceError)"

definition hasSkillMd :: "entries \<Rightarrow> bool" where
  "hasSkillMd es = list_ex (\<lambda>e. toLowerCase (fst e) = ''skill.md'') es"

text \<open>
  \<^verbatim>\<open>processDir(currentPath, parentCategory)\<close>, given the base name and the listing of
  \<open>currentPath\<close> and the array \<^verbatim>\<open>skills\<close> built so far; \<open>processEntries\<close> is its \<^verbatim>\<open>for\<close> loop.
\<close>

function processDir :: "string \<Rightarrow> entries \<Rightarrow> string \<Rightarrow> skill list \<Rightarrow> error + skill list"
  and processEntries :: "entries \<Rightarrow> skill list \<Rightarrow> error + skill list" where
  "processDir folderName es parentCategory skills =
     (if hasSkillMd es then
        (case readFileSync (Dir es) ''SKILL.md'' of
           Inl e \<Rightarrow> Inl e
         | Inr c \<Rightarrow>
             (case skillEntry folderName parentCategory c of
                Inl e \<Rightarrow> Inl e
              | Inr entry \<Rightarrow> Inr (skills @ [entry])))
      else if parentCategory = [] then processEntries es skills
      else Inr skills)"
| "processEntries [] skills = Inr skills"
| "processEntries ((name, File c) # rest) skills = processEntries rest skills"
| "processEntries ((name, Dir sub) # rest) skills =
     (if \<not> startsWith name ''.'' then
        (case processDir name sub name skills of
           Inl e \<Rightarrow> Inl e
         | Inr skills' \<Rightarrow> processEntries rest skills')
      else processEntries rest skills)"
  by pat_completeness auto
termination
  by (relation "measure (\<lambda>x. case x of
        Inl (f, es, p, s) \<Rightarrow> Suc (esize es)
      | Inr (es, s) \<Rightarrow> esize es)") auto

datatype message = NoSkillsFolder | GeneratedIndex nat

text \<open>
  \<^verbatim>\<open>generateSkillsIndex(targetDir, quiet)\<close> on the node at \<open>targetDir\<close>: the node afterwards
  and the lines logged, or the error raised (nothing is written before a raise).
\<close>

definition generateSkillsIndex :: "node \<Rightarrow> bool \<Rightarrow> error + node \<times> message list" where
  "generateSkillsIndex targetDir quiet =
     (case lookup targetDir ''skills'' of
        None \<Rightarrow> Inr (targetDir, if quiet then [] else [NoSkillsFolder])
      | Some (File _) \<Rightarrow> Inl ENOTDIR
      | Some (Dir es) \<Rightarrow>
          (case processDir ''skills'' es [] [] of
             Inl e \<Rightarrow> Inl e
           | Inr skills \<Rightarrow>
               (case writeFileSync targetDir ''skills_index.json'' (IndexJson skills) of
                  Inl e \<Rightarrow> Inl e
                | Inr d \<Rightarrow> Inr (d, if quiet then [] else [GeneratedIndex (length skills)]))))"

section \<open>Properties of the Directory Merger\<close>

subsection \<open>Recording one path, and a run of paths\<close>

lemma set_fold_pushUnique: "set (fold pushUnique ys fs) = set fs \<union> set ys"
  by (induction ys arbitrary: fs) (auto simp: pushUnique_def)

lemma distinct_fold_pushUnique: "distinct fs \<Longrightarrow> distinct (fold pushUnique ys fs)"
  by (induction ys arbitrary: fs) (auto simp: pushUnique_def)

lemma fold_pushUnique_append:
  "\<exists>zs. fold pushUnique ys fs = fs @ zs \<and> set zs = set ys - set fs \<and> distinct zs"
proof (induction ys arbitrary: fs)
  case Nil
  show ?case by simp
next
  case (Cons y ys)
  from Cons [of "pushUnique y fs"] obtain zs where
    zs: "fold pushUnique ys (pushUnique y fs) = pushUnique y fs @ zs"
        "set zs = set ys - set (pushUnique y fs)" "distinct zs"
    by blast
  show ?case
  proof (cases "y \<in> set fs")
    case True
    with zs have "fold pushUnique (y # ys) fs = fs @ zs \<and> set zs = set (y # ys) - set fs \<and> distinct zs"
      by (auto simp: pushUnique_def)
    then show ?thesis by blast
  next
    case False
    with zs have "fold pushUnique (y # ys) fs = fs @ (y # zs)
        \<and> set (y # zs) = set (y # ys) - set fs \<and> distinct (y # zs)"
      by (auto simp: pushUnique_def)
    then show ?thesis by blast
  qed
qed

lemma clock_track [simp]: "clock (track k p st) = Suc (clock st)"
  by (simp add: track_def Let_def)

lemma owners_track [simp]:
  "owners (reg (track k p st)) q
     = (if q = p then Some \<lparr> kit = k, updatedAt = clock st \<rparr> else owners (reg st) q)"
  by (simp add: track_def Let_def split: option.splits)

lemma kits_track_other [simp]: "k' \<noteq> k \<Longrightarrow> kits (reg (track k p st)) k' = kits (reg st) k'"
  by (simp add: track_def Let_def split: option.splits)

lemma kits_track_same:
  "kits (reg (track k p st)) k
     = map_option (\<lambda>i. i\<lparr> files := pushUnique p (files i) \<rparr>) (kits (reg st) k)"
  by (simp add: track_def Let_def split: option.splits)

lemma clock_tracks: "clock (fold (track k) ys st) = clock st + length ys"
  by (induction ys arbitrary: st) auto

lemma kits_tracks_other: "k' \<noteq> k \<Longrightarrow> kits (reg (fold (track k) ys st)) k' = kits (reg st) k'"
  by (induction ys arbitrary: st) auto

lemma kits_tracks_same:
  "kits (reg (fold (track k) ys st)) k
     = map_option (\<lambda>i. i\<lparr> files := fold pushUnique ys (files i) \<rparr>) (kits (reg st) k)"
proof (induction ys arbitrary: st)
  case Nil
  show ?case by (cases "kits (reg st) k") auto
next
  case (Cons y ys)
  show ?case
    by (cases "kits (reg st) k") (simp_all add: Cons kits_track_same)
qed

lemma owners_tracks_other: "q \<notin> set ys \<Longrightarrow> owners (reg (fold (track k) ys st)) q = owners (reg st) q"
  by (induction ys arbitrary: st) auto

lemma owners_tracks_copied:
  "q \<in> set ys \<Longrightarrow>
     \<exists>t. owners (reg (fold (track k) ys st)) q = Some \<lparr> kit = k, updatedAt = t \<rparr>
        \<and> clock st \<le> t \<and> t < clock st + length ys"
proof (induction ys arbitrary: st)
  case Nil
  then show ?case by simp
next
  case (Cons y ys)
  show ?case
  proof (cases "q \<in> set ys")
    case True
    from Cons.IH [OF True, of "track k y st"] show ?thesis by auto
  next
    case False
    with Cons.prems have "q = y" by simp
    with False show ?thesis by (simp add: owners_tracks_other)
  qed
qed


subsection \<open>Saving and loading\<close>

lemma map_of_put_entry: "map_of (put_entry name n es) = (map_of es)(name \<mapsto> n)"
  by (induction es) auto

lemma load_after_save: "saveRegistry d r = Inr d' \<Longrightarrow> loadRegistry d' = Inr (JRegistry r)"
  by (auto simp: saveRegistry_def loadRegistry_def writeFileSync_def existsSync_def
      readFileSync_def JSON_parse_def lookup_def map_of_put_entry split: node.splits option.splits)

lemma lookup_after_save:
  "saveRegistry d r = Inr d' \<Longrightarrow> lookup d' REGISTRY_FILE = Some (File (RegistryJson r))"
  by (auto simp: saveRegistry_def writeFileSync_def lookup_def map_of_put_entry
      split: node.splits option.splits)


subsection \<open>What a run of the copy loop does to the log and to the registry\<close>

text \<open>A copy returns exactly when the path is not locked and the destination takes the file;
  then the file is there and the path is the last entry of the log.\<close>

lemma copyFileSync_Some:
  "copyFileSync L p c d name log = Some (d', log') \<longleftrightarrow>
     p \<notin> L \<and> writeFileSync d name c = Inr d' \<and> log' = log @ [p]"
  by (auto simp: copyFileSync_def split: sum.splits)

lemma copyFileSync_None:
  "copyFileSync L p c d name log = None \<longleftrightarrow> p \<in> L \<or> (\<exists>e. writeFileSync d name c = Inl e)"
  by (auto simp: copyFileSync_def split: sum.splits)

lemma writeFileSync_Inr:
  "writeFileSync d name c = Inr d' \<longleftrightarrow>
     (\<exists>des. d = Dir des \<and> (\<forall>ds. map_of des name \<noteq> Some (Dir ds))
          \<and> d' = Dir (put_entry name (File c) des))"
  by (auto simp: writeFileSync_def split: node.splits option.splits)

text \<open>The registry after a run is the registry before it with the paths the run logged
  recorded one after the other, however the run ends.\<close>

lemma copyRecursive_tracks:
  "\<exists>ys. fst (snd (snd (copyRecursive r k L es d log rel st))) = log @ ys
      \<and> snd (snd (snd (copyRecursive r k L es d log rel st))) = fold (track k) ys st"
proof (induction r k L es d log rel st rule: copyRecursive.induct)
  case (1 r k L d log rel st)
  have "fst (snd (snd (copyRecursive r k L [] d log rel st))) = log @ []
      \<and> snd (snd (snd (copyRecursive r k L [] d log rel st))) = fold (track k) [] st" by simp
  then show ?case by blast
next
  case (2 r k L name c rest d log rel st)
  show ?case
  proof (cases "skipped r rel name")
    case True
    with 2 show ?thesis by simp
  next
    case False
    show ?thesis
    proof (cases "copyFileSync L (path_join rel name) c d name log")
      case None
      with False 2 show ?thesis by simp
    next
      case (Some res)
      obtain d' log' where res: "res = (d', log')" by (cases res)
      from Some res have l: "log' = log @ [path_join rel name]"
        by (simp add: copyFileSync_Some)
      from 2(3) [OF False Some res [symmetric]] obtain ys where
        ys: "fst (snd (snd (copyRecursive r k L rest d' log' rel (track k (path_join rel name) st))))
               = log' @ ys"
            "snd (snd (snd (copyRecursive r k L rest d' log' rel (track k (path_join rel name) st))))
               = fold (track k) ys (track k (path_join rel name) st)"
        by blast
      have "fst (snd (snd (copyRecursive r k L ((name, File c) # rest) d log rel st)))
              = log @ (path_join rel name # ys)
          \<and> snd (snd (snd (copyRecursive r k L ((name, File c) # rest) d log rel st)))
              = fold (track k) (path_join rel name # ys) st"
        using False Some res ys l by simp
      then show ?thesis by blast
    qed
  qed
next
  case (3 r k L name sub rest d log rel st)
  show ?case
  proof (cases "skipped r rel name")
    case True
    with 3 show ?thesis by simp
  next
    case False
    show ?thesis
    proof (cases "enterDir d name")
      case (Inl e)
      then have "fst (snd (snd (copyRecursive r k L ((name, Dir sub) # rest) d log rel st))) = log @ []
          \<and> snd (snd (snd (copyRecursive r k L ((name, Dir sub) # rest) d log rel st)))
              = fold (track k) [] st"
        using False by simp
      then show ?thesis by blast
    next
      case (Inr child)
      obtain e child' log' st' where res:
        "copyRecursive r k L sub child log (path_join rel name) st = (e, child', log', st')"
        by (cases "copyRecursive r k L sub child log (path_join rel name) st") auto
      from 3(2) [OF False Inr] res obtain ys where
        ys: "log' = log @ ys" "st' = fold (track k) ys st" by auto
      show ?thesis
      proof (cases e)
        case (Some err)
        then have "fst (snd (snd (copyRecursive r k L ((name, Dir sub) # rest) d log rel st))) = log @ ys
            \<and> snd (snd (snd (copyRecursive r k L ((name, Dir sub) # rest) d log rel st)))
                = fold (track k) ys st"
          using False Inr res ys by simp
        then show ?thesis by blast
      next
        case None
        from 3(3) [OF False Inr res [symmetric] None refl refl] obtain zs where
          zs: "fst (snd (snd (copyRecursive r k L rest (put d name child') log' rel st'))) = log' @ zs"
              "snd (snd (snd (copyRecursive r k L rest (put d name child') log' rel st')))
                 = fold (track k) zs st'"
          by auto
        have "fst (snd (snd (copyRecursive r k L ((name, Dir sub) # rest) d log rel st)))
                = log @ (ys @ zs)
            \<and> snd (snd (snd (copyRecursive r k L ((name, Dir sub) # rest) d log rel st)))
                = fold (track k) (ys @ zs) st"
          using False Inr res ys zs None by simp
        then show ?thesis by blast
      qed
    qed
  qed
qed

subsection \<open>A merge that returns normally\<close>

lemma kits_openKit_other: "k' \<noteq> k \<Longrightarrow> kits (fst (openKit k src r t)) k' = kits r k'"
  by (simp add: openKit_def split: option.splits)

lemma owners_openKit: "owners (fst (openKit k src r t)) = owners r"
  by (simp add: openKit_def split: option.splits)

lemma kits_openKit_new:
  "kits r k = None \<Longrightarrow>
     kits (fst (openKit k src r t)) k
       = Some \<lparr> source = src, installedAt = t, files = [], lastUpdated = Some (Suc t) \<rparr>"
  by (simp add: openKit_def)

lemma kits_openKit_old:
  "kits r k = Some i \<Longrightarrow> kits (fst (openKit k src r t)) k = Some (i\<lparr> lastUpdated := Some t \<rparr>)"
  by (simp add: openKit_def)

lemma clock_openKit: "t \<le> snd (openKit k src r t)"
  by (simp add: openKit_def split: option.splits)

lemma merge_run:
  assumes "mergeAgentFolder tmp w src = (None, w')"
  shows "\<exists>r0 es root d st d'.
           sourceRoot tmp = Some (Dir es, root)
         \<and> loadRegistry (globalDirOf w) = Inr (JRegistry r0)
         \<and> copyRecursive root (kitId_of src) (lockedPaths w) es (globalDirOf w) [] []
              \<lparr> reg = fst (openKit (kitId_of src) src r0 (now w)),
                clock = snd (openKit (kitId_of src) src r0 (now w)) \<rparr>
             = (None, d, lastCopied w', st)
         \<and> saveRegistry d (reg st) = Inr d'
         \<and> target w' = Some d'
         \<and> now w' = clock st"
proof -
  from assms obtain sa root where sr: "sourceRoot tmp = Some (sa, root)"
    by (cases "sourceRoot tmp") (auto simp: mergeAgentFolder_def)
  from assms sr obtain j where j: "loadRegistry (globalDirOf w) = Inr j"
    by (cases "loadRegistry (globalDirOf w)") (auto simp: mergeAgentFolder_def Let_def)
  from assms sr j obtain r0 where r0: "j = JRegistry r0"
    by (cases j) (auto simp: mergeAgentFolder_def Let_def)
  define k where "k = kitId_of src"
  define st0 where "st0 = \<lparr> reg = fst (openKit k src r0 (now w)),
                        clock = snd (openKit k src r0 (now w)) \<rparr>"
  from assms sr j r0 obtain es where es: "sa = Dir es"
    by (cases sa) (auto simp: mergeAgentFolder_def Let_def split: prod.splits)
  obtain e d log st where
    cr: "copyRecursive root k (lockedPaths w) es (globalDirOf w) [] [] st0 = (e, d, log, st)"
    by (cases "copyRecursive root k (lockedPaths w) es (globalDirOf w) [] [] st0") auto
  from assms sr j r0 es cr have e: "e = None"
    by (cases e) (auto simp: mergeAgentFolder_def Let_def k_def st0_def split: prod.splits)
  from assms sr j r0 es cr e obtain d' where d': "saveRegistry d (reg st) = Inr d'"
    and w': "w' = w\<lparr> target := Some d', now := clock st, lastCopied := log \<rparr>"
    by (cases "saveRegistry d (reg st)")
       (auto simp: mergeAgentFolder_def Let_def k_def st0_def split: prod.splits)
  from sr j r0 es cr e d' w' show ?thesis
    by (auto simp: k_def st0_def)
qed

lemma merge_ok:
  assumes "mergeAgentFolder tmp w src = (None, w')"
  shows "\<exists>r0 ys d'.
           loadRegistry (globalDirOf w) = Inr (JRegistry r0)
         \<and> target w' = Some d'
         \<and> loadRegistry d'
             = Inr (JRegistry (reg (fold (track (kitId_of src)) ys
                      \<lparr> reg = fst (openKit (kitId_of src) src r0 (now w)),
                        clock = snd (openKit (kitId_of src) src r0 (now w)) \<rparr>)))
         \<and> existsSync d' REGISTRY_FILE
         \<and> lastCopied w' = ys
         \<and> now w' = snd (openKit (kitId_of src) src r0 (now w)) + length ys"
proof -
  define k where "k = kitId_of src"
  from merge_run [OF assms] obtain r0 es root d st d' where
    r0: "loadRegistry (globalDirOf w) = Inr (JRegistry r0)"
    and cr: "copyRecursive root k (lockedPaths w) es (globalDirOf w) [] []
              \<lparr> reg = fst (openKit k src r0 (now w)), clock = snd (openKit k src r0 (now w)) \<rparr>
             = (None, d, lastCopied w', st)"
    and d': "saveRegistry d (reg st) = Inr d'"
    and t: "target w' = Some d'"
    and n: "now w' = clock st"
    unfolding k_def by blast
  define st0 where "st0 = \<lparr> reg = fst (openKit k src r0 (now w)),
                        clock = snd (openKit k src r0 (now w)) \<rparr>"
  from copyRecursive_tracks [of root k "lockedPaths w" es "globalDirOf w" "[]" "[]" st0] cr
  have ys: "st = fold (track k) (lastCopied w') st0" by (auto simp: st0_def)
  have "clock st = clock st0 + length (lastCopied w')"
    by (simp add: ys clock_tracks)
  with r0 d' t n ys show ?thesis
    by (auto simp: load_after_save lookup_after_save existsSync_def k_def st0_def)
qed

lemma merge_registry:
  assumes "mergeAgentFolder tmp w src = (None, w')"
  obtains r0 r' where
    "loadRegistry (globalDirOf w) = Inr (JRegistry r0)"
    "loadRegistry (globalDirOf w') = Inr (JRegistry r')"
    "existsSync (globalDirOf w') REGISTRY_FILE"
    "\<And>k'. k' \<noteq> kitId_of src \<Longrightarrow> kits r' k' = kits r0 k'"
    "\<And>q. q \<notin> set (lastCopied w') \<Longrightarrow> owners r' q = owners r0 q"
    "\<And>q. q \<in> set (lastCopied w') \<Longrightarrow>
       \<exists>t. owners r' q = Some \<lparr> kit = kitId_of src, updatedAt = t \<rparr> \<and> now w \<le> t \<and> t < now w'"
    "kits r0 (kitId_of src) = None \<Longrightarrow>
       kits r' (kitId_of src)
         = Some \<lparr> source = src, installedAt = now w,
                  files = fold pushUnique (lastCopied w') [], lastUpdated = Some (Suc (now w)) \<rparr>
       \<and> Suc (Suc (now w)) \<le> now w'"
    "\<And>i. kits r0 (kitId_of src) = Some i \<Longrightarrow>
       kits r' (kitId_of src)
         = Some (i\<lparr> files := fold pushUnique (lastCopied w') (files i), lastUpdated := Some (now w) \<rparr>)
       \<and> Suc (now w) \<le> now w'"
proof -
  define k where "k = kitId_of src"
  from merge_ok [OF assms] obtain r0 ys d' where
    r0: "loadRegistry (globalDirOf w) = Inr (JRegistry r0)"
    and d': "target w' = Some d'"
    and ex: "existsSync d' REGISTRY_FILE"
    and ld: "loadRegistry d'
             = Inr (JRegistry (reg (fold (track k) ys
                      \<lparr> reg = fst (openKit k src r0 (now w)),
                        clock = snd (openKit k src r0 (now w)) \<rparr>)))"
    and ys: "lastCopied w' = ys"
    and nw: "now w' = snd (openKit k src r0 (now w)) + length ys"
    unfolding k_def by blast
  define st0 where "st0 = \<lparr> reg = fst (openKit k src r0 (now w)),
                        clock = snd (openKit k src r0 (now w)) \<rparr>"
  define r' where "r' = reg (fold (track k) ys st0)"
  have g: "globalDirOf w' = d'" using d' by (simp add: globalDirOf_def)
  have 1: "loadRegistry (globalDirOf w') = Inr (JRegistry r')"
    using ld g by (simp add: r'_def st0_def)
  have ex': "existsSync (globalDirOf w') REGISTRY_FILE"
    using ex g by simp
  have 2: "kits r' k' = kits r0 k'" if "k' \<noteq> kitId_of src" for k'
    using that by (simp add: r'_def st0_def kits_tracks_other kits_openKit_other k_def)
  have 3: "owners r' q = owners r0 q" if "q \<notin> set (lastCopied w')" for q
    using that ys by (simp add: r'_def st0_def owners_tracks_other owners_openKit)
  have 4: "\<exists>t. owners r' q = Some \<lparr> kit = kitId_of src, updatedAt = t \<rparr> \<and> now w \<le> t \<and> t < now w'"
    if "q \<in> set (lastCopied w')" for q
  proof -
    from that ys have "q \<in> set ys" by simp
    from owners_tracks_copied [OF this, of k st0] obtain t where
      "owners r' q = Some \<lparr> kit = k, updatedAt = t \<rparr>" "clock st0 \<le> t" "t < clock st0 + length ys"
      by (auto simp: r'_def)
    moreover have "now w \<le> clock st0" by (simp add: st0_def clock_openKit)
    ultimately show ?thesis using nw by (auto simp: k_def st0_def)
  qed
  have 5: "kits r' (kitId_of src)
         = Some \<lparr> source = src, installedAt = now w,
                  files = fold pushUnique (lastCopied w') [], lastUpdated = Some (Suc (now w)) \<rparr>
       \<and> Suc (Suc (now w)) \<le> now w'" if "kits r0 (kitId_of src) = None"
    using that ys nw
    by (simp add: r'_def st0_def kits_tracks_same kits_openKit_new k_def openKit_def)
  have 6: "kits r' (kitId_of src)
         = Some (i\<lparr> files := fold pushUnique (lastCopied w') (files i), lastUpdated := Some (now w) \<rparr>)
       \<and> Suc (now w) \<le> now w'" if "kits r0 (kitId_of src) = Some i" for i
    using that ys nw
    by (simp add: r'_def st0_def kits_tracks_same kits_openKit_old k_def openKit_def)
  show ?thesis using that [OF r0 1 ex' 2 3 4 5 6] by blast
qed

lemma merge_result:
  assumes "mergeAgentFolder tmp w src = (None, w')"
  shows "\<exists>r0 r'.
      loadRegistry (globalDirOf w) = Inr (JRegistry r0)
    \<and> loadRegistry (globalDirOf w') = Inr (JRegistry r')
    \<and> existsSync (globalDirOf w') REGISTRY_FILE
    \<and> (\<forall>k'. k' \<noteq> kitId_of src \<longrightarrow> kits r' k' = kits r0 k')
    \<and> (\<forall>q. q \<notin> set (lastCopied w') \<longrightarrow> owners r' q = owners r0 q)
    \<and> (\<forall>q. q \<in> set (lastCopied w') \<longrightarrow>
          (\<exists>t. owners r' q = Some \<lparr> kit = kitId_of src, updatedAt = t \<rparr> \<and> now w \<le> t \<and> t < now w'))
    \<and> (kits r0 (kitId_of src) = None \<longrightarrow>
          kits r' (kitId_of src)
            = Some \<lparr> source = src, installedAt = now w,
                     files = fold pushUnique (lastCopied w') [], lastUpdated = Some (Suc (now w)) \<rparr>
          \<and> Suc (Suc (now w)) \<le> now w')
    \<and> (\<forall>i. kits r0 (kitId_of src) = Some i \<longrightarrow>
          kits r' (kitId_of src)
            = Some (i\<lparr> files := fold pushUnique (lastCopied w') (files i), lastUpdated := Some (now w) \<rparr>)
          \<and> Suc (now w) \<le> now w')"
proof (rule merge_registry [OF assms])
  fix r0 r'
  assume "loadRegistry (globalDirOf w) = Inr (JRegistry r0)"
    "loadRegistry (globalDirOf w') = Inr (JRegistry r')"
    "existsSync (globalDirOf w') REGISTRY_FILE"
    "\<And>k'. k' \<noteq> kitId_of src \<Longrightarrow> kits r' k' = kits r0 k'"
    "\<And>q. q \<notin> set (lastCopied w') \<Longrightarrow> owners r' q = owners r0 q"
    "\<And>q. q \<in> set (lastCopied w') \<Longrightarrow>
       \<exists>t. owners r' q = Some \<lparr> kit = kitId_of src, updatedAt = t \<rparr> \<and> now w \<le> t \<and> t < now w'"
    "kits r0 (kitId_of src) = None \<Longrightarrow>
       kits r' (kitId_of src)
         = Some \<lparr> source = src, installedAt = now w,
                  files = fold pushUnique (lastCopied w') [], lastUpdated = Some (Suc (now w)) \<rparr>
       \<and> Suc (Suc (now w)) \<le> now w'"
    "\<And>i. kits r0 (kitId_of src) = Some i \<Longrightarrow>
       kits r' (kitId_of src)
         = Some (i\<lparr> files := fold pushUnique (lastCopied w') (files i), lastUpdated := Some (now w) \<rparr>)
       \<and> Suc (now w) \<le> now w'"
  then show ?thesis
    by (intro exI [of _ r0] exI [of _ r'] conjI allI impI) simp_all
qed

lemma merge_kit_entry:
  assumes "mergeAgentFolder tmp w src = (None, w')"
    and "loadRegistry (globalDirOf w) = Inr (JRegistry r0)"
  shows "\<exists>r' i zs.
      loadRegistry (globalDirOf w') = Inr (JRegistry r')
    \<and> kits r' (kitId_of src) = Some i
    \<and> source i = (case kits r0 (kitId_of src) of None \<Rightarrow> src | Some i0 \<Rightarrow> source i0)
    \<and> installedAt i = (case kits r0 (kitId_of src) of None \<Rightarrow> now w | Some i0 \<Rightarrow> installedAt i0)
    \<and> lastUpdated i = (case kits r0 (kitId_of src) of None \<Rightarrow> Some (Suc (now w)) | Some i0 \<Rightarrow> Some (now w))
    \<and> files i = (case kits r0 (kitId_of src) of None \<Rightarrow> [] | Some i0 \<Rightarrow> files i0) @ zs
    \<and> set zs = set (lastCopied w') - (case kits r0 (kitId_of src) of None \<Rightarrow> {} | Some i0 \<Rightarrow> set (files i0))
    \<and> distinct zs
    \<and> (\<forall>k'. k' \<noteq> kitId_of src \<longrightarrow> kits r' k' = kits r0 k')
    \<and> (\<forall>q. q \<notin> set (lastCopied w') \<longrightarrow> owners r' q = owners r0 q)
    \<and> (\<forall>q. q \<in> set (lastCopied w') \<longrightarrow>
          (\<exists>t. owners r' q = Some \<lparr> kit = kitId_of src, updatedAt = t \<rparr> \<and> now w \<le> t \<and> t < now w'))"
proof -
  from merge_result [OF assms(1)] assms(2) obtain r' where
    r': "loadRegistry (globalDirOf w') = Inr (JRegistry r')"
    and other: "\<forall>k'. k' \<noteq> kitId_of src \<longrightarrow> kits r' k' = kits r0 k'"
    and keep: "\<forall>q. q \<notin> set (lastCopied w') \<longrightarrow> owners r' q = owners r0 q"
    and own: "\<forall>q. q \<in> set (lastCopied w') \<longrightarrow>
          (\<exists>t. owners r' q = Some \<lparr> kit = kitId_of src, updatedAt = t \<rparr> \<and> now w \<le> t \<and> t < now w')"
    and new: "kits r0 (kitId_of src) = None \<longrightarrow>
          kits r' (kitId_of src)
            = Some \<lparr> source = src, installedAt = now w,
                     files = fold pushUnique (lastCopied w') [], lastUpdated = Some (Suc (now w)) \<rparr>
          \<and> Suc (Suc (now w)) \<le> now w'"
    and old: "\<forall>i. kits r0 (kitId_of src) = Some i \<longrightarrow>
          kits r' (kitId_of src)
            = Some (i\<lparr> files := fold pushUnique (lastCopied w') (files i), lastUpdated := Some (now w) \<rparr>)
          \<and> Suc (now w) \<le> now w'"
    by auto
  have "\<exists>i zs. kits r' (kitId_of src) = Some i
    \<and> source i = (case kits r0 (kitId_of src) of None \<Rightarrow> src | Some i0 \<Rightarrow> source i0)
    \<and> installedAt i = (case kits r0 (kitId_of src) of None \<Rightarrow> now w | Some i0 \<Rightarrow> installedAt i0)
    \<and> lastUpdated i = (case kits r0 (kitId_of src) of None \<Rightarrow> Some (Suc (now w)) | Some i0 \<Rightarrow> Some (now w))
    \<and> files i = (case kits r0 (kitId_of src) of None \<Rightarrow> [] | Some i0 \<Rightarrow> files i0) @ zs
    \<and> set zs = set (lastCopied w') - (case kits r0 (kitId_of src) of None \<Rightarrow> {} | Some i0 \<Rightarrow> set (files i0))
    \<and> distinct zs"
  proof (cases "kits r0 (kitId_of src)")
    case None
    from fold_pushUnique_append [of "lastCopied w'" "[]"] obtain zs where
      "fold pushUnique (lastCopied w') [] = zs" "set zs = set (lastCopied w')" "distinct zs"
      by auto
    with new None show ?thesis by auto
  next
    case (Some i0)
    from fold_pushUnique_append [of "lastCopied w'" "files i0"] obtain zs where
      "fold pushUnique (lastCopied w') (files i0) = files i0 @ zs"
      "set zs = set (lastCopied w') - set (files i0)" "distinct zs"
      by auto
    with old Some show ?thesis by auto
  qed
  with r' other keep own show ?thesis by blast
qed

lemma merge_loads:
  assumes "mergeAgentFolder tmp w src = (None, w')"
  shows "\<exists>r0. loadRegistry (globalDirOf w) = Inr (JRegistry r0)"
  using merge_result [OF assms] by (elim exE conjE) (rule exI)

subsection \<open>The kit identifier\<close>

lemma not_isAlnum_underscore: "\<not> isAlnum CHR ''_''"
  by (simp add: isAlnum_def lowerLetters_def upperLetters_def digits_def)

lemma kitId_char_eq:
  "((if isAlnum a then a else CHR ''_'') = (if isAlnum b then b else CHR ''_''))
     \<longleftrightarrow> (a = b \<or> \<not> isAlnum a \<and> \<not> isAlnum b)"
  using not_isAlnum_underscore by auto

lemma kitId_of_eq_iff:
  "kitId_of s = kitId_of s' \<longleftrightarrow> list_all2 (\<lambda>a b. a = b \<or> \<not> isAlnum a \<and> \<not> isAlnum b) s' s"
proof (induction s arbitrary: s')
  case Nil
  show ?case by (cases s') (simp_all add: kitId_of_def)
next
  case (Cons c s)
  show ?case
  proof (cases s')
    case Nil
    then show ?thesis by (simp add: kitId_of_def)
  next
    case (Cons c' t)
    have "kitId_of (c # s) = kitId_of (c' # t)
        \<longleftrightarrow> (if isAlnum c then c else CHR ''_'') = (if isAlnum c' then c' else CHR ''_'')
            \<and> kitId_of s = kitId_of t"
      by (simp add: kitId_of_def)
    also have "\<dots> \<longleftrightarrow> (c' = c \<or> \<not> isAlnum c' \<and> \<not> isAlnum c)
            \<and> list_all2 (\<lambda>a b. a = b \<or> \<not> isAlnum a \<and> \<not> isAlnum b) t s"
      using Cons.IH [of t] kitId_char_eq [of c c'] by auto
    finally show ?thesis using Cons by simp
  qed
qed

lemma kitId_of_nth:
  "n < length s \<Longrightarrow> kitId_of s ! n = (if isAlnum (s ! n) then s ! n else CHR ''_'')"
  by (simp add: kitId_of_def)

lemma kitId_of_length: "length (kitId_of s) = length s"
  by (simp add: kitId_of_def)

subsection \<open>The copy loop on a destination that admits the source\<close>

lemma admitsEntries_Nil: "admitsEntries es []"
  by (induction es "[] :: entries" rule: admitsEntries.induct) auto

lemma admitsEntries_cong:
  "(\<And>n. n \<in> fst ` set es \<Longrightarrow> map_of des n = map_of des' n)
     \<Longrightarrow> admitsEntries es des = admitsEntries es des'"
proof (induction es)
  case Nil
  show ?case by simp
next
  case (Cons a es)
  obtain name n where a: "a = (name, n)" by (cases a)
  have rest: "admitsEntries es des = admitsEntries es des'"
    using Cons by simp
  have here: "map_of des name = map_of des' name"
    using Cons(2) [of name] a by simp
  show ?case
    using rest here a by (cases n) simp_all
qed

lemma admitsEntries_put_entry:
  "name \<notin> fst ` set es \<Longrightarrow> admitsEntries es (put_entry name n des) = admitsEntries es des"
  by (rule admitsEntries_cong) (auto simp: map_of_put_entry)

lemma admits_Dir: "admits es d \<longleftrightarrow> (\<exists>des. d = Dir des \<and> admitsEntries es des)"
  by (cases d) (simp_all add: admits_def)

text \<open>
  On a source listing with no name twice and a destination that admits it, the copy loop
  never raises; it copies exactly the files it reaches whose copy does not fail, in the
  order it reaches them, and records each of them.
\<close>

lemma copyRecursive_admitted:
  "distinctNames es \<Longrightarrow> admits es d \<Longrightarrow>
     \<exists>des'. copyRecursive r k L es d log rel st
        = (None, Dir des', log @ filter (\<lambda>p. p \<notin> L) (reachedFiles r rel es),
           fold (track k) (filter (\<lambda>p. p \<notin> L) (reachedFiles r rel es)) st)
      \<and> (\<forall>n. n \<notin> fst ` set es \<longrightarrow> map_of des' n = lookup d n)"
proof (induction r k L es d log rel st rule: copyRecursive.induct)
  case (1 r k L d log rel st)
  from 1(2) obtain des where "d = Dir des" by (auto simp: admits_Dir)
  then show ?case by (simp add: lookup_def)
next
  case (2 r k L name c rest d log rel st)
  from 2(5) obtain des where d: "d = Dir des" and ad: "admitsEntries ((name, File c) # rest) des"
    by (auto simp: admits_Dir)
  from ad have here: "\<forall>ds. map_of des name \<noteq> Some (Dir ds)" and ar: "admitsEntries rest des"
    by (auto split: option.splits node.splits)
  from 2(4) have fresh: "name \<notin> fst ` set rest" and dr: "distinctNames rest" by simp_all
  have adr: "admits rest d" using d ar by (simp add: admits_Dir)
  show ?case
  proof (cases "skipped r rel name")
    case True
    from 2(1) [OF True dr adr] obtain des' where
      "copyRecursive r k L rest d log rel st
        = (None, Dir des', log @ filter (\<lambda>p. p \<notin> L) (reachedFiles r rel rest),
           fold (track k) (filter (\<lambda>p. p \<notin> L) (reachedFiles r rel rest)) st)"
      "\<forall>n. n \<notin> fst ` set rest \<longrightarrow> map_of des' n = lookup d n"
      by blast
    with True show ?thesis by simp
  next
    case False
    show ?thesis
    proof (cases "path_join rel name \<in> L")
      case True
      then have cf: "copyFileSync L (path_join rel name) c d name log = None"
        by (simp add: copyFileSync_def)
      from 2(2) [OF False cf dr adr] obtain des' where
        "copyRecursive r k L rest d log rel st
          = (None, Dir des', log @ filter (\<lambda>p. p \<notin> L) (reachedFiles r rel rest),
             fold (track k) (filter (\<lambda>p. p \<notin> L) (reachedFiles r rel rest)) st)"
        "\<forall>n. n \<notin> fst ` set rest \<longrightarrow> map_of des' n = lookup d n"
        by blast
      with False True cf show ?thesis by simp
    next
      case notL: False
      define d1 where "d1 = Dir (put_entry name (File c) des)"
      have cf: "copyFileSync L (path_join rel name) c d name log
                  = Some (d1, log @ [path_join rel name])"
        using notL here d by (simp add: copyFileSync_Some writeFileSync_Inr d1_def)
      have ad1: "admits rest d1"
        using ar fresh by (simp add: admits_Dir d1_def admitsEntries_put_entry)
      from 2(3) [OF False cf refl dr ad1] obtain des' where
        run: "copyRecursive r k L rest d1 (log @ [path_join rel name]) rel
                (track k (path_join rel name) st)
          = (None, Dir des',
             (log @ [path_join rel name]) @ filter (\<lambda>p. p \<notin> L) (reachedFiles r rel rest),
             fold (track k) (filter (\<lambda>p. p \<notin> L) (reachedFiles r rel rest))
               (track k (path_join rel name) st))"
        and keep: "\<forall>n. n \<notin> fst ` set rest \<longrightarrow> map_of des' n = lookup d1 n"
        by blast
      have "\<forall>n. n \<notin> fst ` set ((name, File c) # rest) \<longrightarrow> map_of des' n = lookup d n"
        using keep by (simp add: d1_def d lookup_def map_of_put_entry)
      with False notL cf run show ?thesis by simp
    qed
  qed
next
  case (3 r k L name sub rest d log rel st)
  from 3(5) obtain des where d: "d = Dir des" and ad: "admitsEntries ((name, Dir sub) # rest) des"
    by (auto simp: admits_Dir)
  from ad have ar: "admitsEntries rest des" by simp
  from 3(4) have fresh: "name \<notin> fst ` set rest" and ds: "distinctNames sub"
    and dr: "distinctNames rest" by simp_all
  have adr: "admits rest d" using d ar by (simp add: admits_Dir)
  show ?case
  proof (cases "skipped r rel name")
    case True
    from 3(1) [OF True dr adr] obtain des' where
      "copyRecursive r k L rest d log rel st
        = (None, Dir des', log @ filter (\<lambda>p. p \<notin> L) (reachedFiles r rel rest),
           fold (track k) (filter (\<lambda>p. p \<notin> L) (reachedFiles r rel rest)) st)"
      "\<forall>n. n \<notin> fst ` set rest \<longrightarrow> map_of des' n = lookup d n"
      by blast
    with True show ?thesis by simp
  next
    case False
    obtain child where en: "enterDir d name = Inr child" and ac: "admits sub child"
    proof (cases "map_of des name")
      case None
      then have "enterDir d name = Inr (Dir [])" by (simp add: enterDir_def lookup_def d)
      moreover have "admits sub (Dir [])" by (simp add: admits_Dir admitsEntries_Nil)
      ultimately show ?thesis using that by blast
    next
      case (Some n)
      with ad obtain cs where n: "n = Dir cs" and "admitsEntries sub cs"
        by (cases n) auto
      then have "enterDir d name = Inr (Dir cs)" "admits sub (Dir cs)"
        using Some by (simp_all add: enterDir_def lookup_def d admits_Dir)
      then show ?thesis using that by blast
    qed
    let ?F1 = "filter (\<lambda>p. p \<notin> L) (reachedFiles r (path_join rel name) sub)"
    let ?F2 = "filter (\<lambda>p. p \<notin> L) (reachedFiles r rel rest)"
    from 3(2) [OF False en ds ac] obtain cs' where
      inner: "copyRecursive r k L sub child log (path_join rel name) st
          = (None, Dir cs', log @ ?F1, fold (track k) ?F1 st)"
      by blast
    define d1 where "d1 = put d name (Dir cs')"
    have d1: "d1 = Dir (put_entry name (Dir cs') des)" by (simp add: d1_def put_def d)
    have ad1: "admits rest d1"
      using ar fresh by (simp add: admits_Dir d1 admitsEntries_put_entry)
    from 3(3) [OF False en inner [symmetric] refl refl refl dr] ad1 obtain des' where
      run: "copyRecursive r k L rest d1 (log @ ?F1) rel (fold (track k) ?F1 st)
          = (None, Dir des', (log @ ?F1) @ ?F2, fold (track k) ?F2 (fold (track k) ?F1 st))"
      and keep: "\<forall>n. n \<notin> fst ` set rest \<longrightarrow> map_of des' n = lookup d1 n"
      unfolding d1_def by blast
    have "\<forall>n. n \<notin> fst ` set ((name, Dir sub) # rest) \<longrightarrow> map_of des' n = lookup d n"
      using keep by (simp add: d1 d lookup_def map_of_put_entry)
    with False en inner run show ?thesis by (simp add: d1_def)
  qed
qed

text \<open>The same for a merge that returns normally: its log of copies is determined by the source.\<close>

lemma merge_lastCopied:
  assumes "mergeAgentFolder tmp w src = (None, w')"
    and "sourceRoot tmp = Some (Dir es, root)"
    and "distinctNames es" and "admits es (globalDirOf w)"
  shows "lastCopied w' = filter (\<lambda>p. p \<notin> lockedPaths w) (reachedFiles root [] es)"
proof -
  from merge_run [OF assms(1)] assms(2) obtain r0 d st where
    cr: "copyRecursive root (kitId_of src) (lockedPaths w) es (globalDirOf w) [] []
              \<lparr> reg = fst (openKit (kitId_of src) src r0 (now w)),
                clock = snd (openKit (kitId_of src) src r0 (now w)) \<rparr>
             = (None, d, lastCopied w', st)"
    by auto
  from copyRecursive_admitted [OF assms(3,4), of root "kitId_of src" "lockedPaths w" "[]" "[]"
      "\<lparr> reg = fst (openKit (kitId_of src) src r0 (now w)),
         clock = snd (openKit (kitId_of src) src r0 (now w)) \<rparr>"] cr
  show ?thesis by auto
qed

subsection \<open>The registry file across merges, whatever their outcome\<close>

lemma copyFileSync_Some_Dir:
  "copyFileSync L p c d name log = Some (d', log')
     \<Longrightarrow> \<exists>des. d = Dir des \<and> d' = Dir (put_entry name (File c) des)"
  by (auto simp: copyFileSync_Some writeFileSync_Inr)

text \<open>Copying into a path that is a file changes nothing there; copying into a directory
  leaves a directory.\<close>

lemma copyRecursive_into_File:
  "fst (snd (copyRecursive r k L es (File c) log rel st)) = File c"
proof (induction es)
  case Nil
  show ?case by simp
next
  case (Cons a es)
  obtain name n where a: "a = (name, n)" by (cases a)
  show ?case
  proof (cases n)
    case (File c')
    have "copyFileSync L (path_join rel name) c' (File c) name log = None"
      by (simp add: copyFileSync_def writeFileSync_def)
    with Cons a File show ?thesis by simp
  next
    case (Dir sub)
    have "enterDir (File c) name = Inl ENOTDIR"
      by (simp add: enterDir_def lookup_def)
    with Cons a Dir show ?thesis by simp
  qed
qed

lemma copyRecursive_into_Dir:
  "(\<exists>des. d = Dir des) \<longrightarrow> (\<exists>des'. fst (snd (copyRecursive r k L es d log rel st)) = Dir des')"
proof (induction r k L es d log rel st rule: copyRecursive.induct)
  case (1 r k L d log rel st)
  show ?case by simp
next
  case (2 r k L name c rest d log rel st)
  show ?case
  proof (cases "skipped r rel name")
    case True
    with 2(1) [OF True] show ?thesis by simp
  next
    case False
    show ?thesis
    proof (cases "copyFileSync L (path_join rel name) c d name log")
      case None
      with False 2(2) [OF False None] show ?thesis by simp
    next
      case (Some x)
      obtain d' log' where x: "x = (d', log')" by (cases x)
      from copyFileSync_Some_Dir [OF Some [unfolded x]] have "\<exists>des. d' = Dir des" by blast
      with 2(3) [OF False Some x [symmetric]] False Some x show ?thesis by simp
    qed
  qed
next
  case (3 r k L name sub rest d log rel st)
  show ?case
  proof (cases "skipped r rel name")
    case True
    with 3(1) [OF True] show ?thesis by simp
  next
    case False
    show ?thesis
    proof (cases "enterDir d name")
      case (Inl e)
      with False show ?thesis by simp
    next
      case (Inr child)
      obtain e child' log' st' where res:
        "copyRecursive r k L sub child log (path_join rel name) st = (e, child', log', st')"
        by (cases "copyRecursive r k L sub child log (path_join rel name) st") auto
      have p: "(\<exists>des. d = Dir des) \<longrightarrow> (\<exists>des'. put d name child' = Dir des')"
        by (auto simp: put_def)
      show ?thesis
      proof (cases e)
        case (Some err)
        with False Inr res p show ?thesis by simp
      next
        case None
        from 3(3) [OF False Inr res [symmetric] None refl refl] p
        show ?thesis using False Inr res None by simp
      qed
    qed
  qed
qed

text \<open>Whether a node at the registry path holds a registry document.\<close>

lemma lookup_put_other: "name' \<noteq> name \<Longrightarrow> lookup (put d name n) name' = lookup d name'"
  by (cases d) (simp_all add: put_def lookup_def map_of_put_entry)

lemma lookup_put_same: "d = Dir des \<Longrightarrow> lookup (put d name n) name = Some n"
  by (simp add: put_def lookup_def map_of_put_entry)

lemma enterDir_Inr:
  "enterDir d name = Inr child \<Longrightarrow>
     \<exists>des. d = Dir des \<and> (lookup d name = Some child \<or> (lookup d name = None \<and> child = Dir []))"
  by (cases d) (auto simp: enterDir_def lookup_def split: option.splits)

lemma copyRecursive_registry_entry:
  assumes "\<forall>reg. (REGISTRY_FILE, File (RegistryJson reg)) \<notin> set es"
  shows "lookup (fst (snd (copyRecursive r k L es d log rel st))) REGISTRY_FILE = lookup d REGISTRY_FILE
       \<or> (\<forall>reg. lookup (fst (snd (copyRecursive r k L es d log rel st))) REGISTRY_FILE
                  \<noteq> Some (File (RegistryJson reg)))"
  using assms
proof (induction r k L es d log rel st rule: copyRecursive.induct)
  case (1 r k L d log rel st)
  show ?case by simp
next
  case (2 r k L name c rest d log rel st)
  from 2(4) have rest: "\<forall>reg. (REGISTRY_FILE, File (RegistryJson reg)) \<notin> set rest" by auto
  show ?case
  proof (cases "skipped r rel name")
    case True
    with 2(1) [OF True rest] show ?thesis by simp
  next
    case False
    show ?thesis
    proof (cases "copyFileSync L (path_join rel name) c d name log")
      case None
      with False 2(2) [OF False None rest] show ?thesis by simp
    next
      case (Some x)
      obtain d' log' where x: "x = (d', log')" by (cases x)
      from copyFileSync_Some_Dir [OF Some [unfolded x]] obtain des where
        des: "d = Dir des" "d' = Dir (put_entry name (File c) des)" by blast
      have step: "lookup d' REGISTRY_FILE = lookup d REGISTRY_FILE
                  \<or> (\<forall>reg. lookup d' REGISTRY_FILE \<noteq> Some (File (RegistryJson reg)))"
      proof (cases "name = REGISTRY_FILE")
        case True
        with 2(4) have "\<forall>reg. c \<noteq> RegistryJson reg" by auto
        with True des show ?thesis by (simp add: lookup_def map_of_put_entry)
      next
        case False
        with des show ?thesis by (simp add: lookup_def map_of_put_entry)
      qed
      from 2(3) [OF False Some x [symmetric] rest] False Some x
      have "lookup (fst (snd (copyRecursive r k L ((name, File c) # rest) d log rel st))) REGISTRY_FILE
              = lookup d' REGISTRY_FILE
            \<or> (\<forall>reg. lookup (fst (snd (copyRecursive r k L ((name, File c) # rest) d log rel st)))
                        REGISTRY_FILE \<noteq> Some (File (RegistryJson reg)))"
        by simp
      with step show ?thesis by metis
    qed
  qed
next
  case (3 r k L name sub rest d log rel st)
  from 3(4) have rest: "\<forall>reg. (REGISTRY_FILE, File (RegistryJson reg)) \<notin> set rest" by auto
  show ?case
  proof (cases "skipped r rel name")
    case True
    with 3(1) [OF True rest] show ?thesis by simp
  next
    case False
    show ?thesis
    proof (cases "enterDir d name")
      case (Inl e)
      with False show ?thesis by simp
    next
      case (Inr child)
      obtain e child' log' st' where res:
        "copyRecursive r k L sub child log (path_join rel name) st = (e, child', log', st')"
        by (cases "copyRecursive r k L sub child log (path_join rel name) st") auto
      from enterDir_Inr [OF Inr] obtain des where des: "d = Dir des"
        and ch: "lookup d name = Some child \<or> (lookup d name = None \<and> child = Dir [])" by blast
      have step: "lookup (put d name child') REGISTRY_FILE = lookup d REGISTRY_FILE
                  \<or> (\<forall>reg. lookup (put d name child') REGISTRY_FILE \<noteq> Some (File (RegistryJson reg)))"
      proof (cases "name = REGISTRY_FILE")
        case False
        then show ?thesis by (simp add: lookup_put_other)
      next
        case True
        show ?thesis
        proof (cases child)
          case (File c)
          from copyRecursive_into_File [of r k L sub c log "path_join rel name" st] res File
          have "child' = File c" by simp
          moreover from ch File have "lookup d name = Some (File c)" by auto
          ultimately show ?thesis using True des by (simp add: lookup_put_same)
        next
          case (Dir cs)
          from copyRecursive_into_Dir [of child r k L sub log "path_join rel name" st] res Dir
          obtain cs' where "child' = Dir cs'" by auto
          with True des show ?thesis by (simp add: lookup_put_same)
        qed
      qed
      show ?thesis
      proof (cases e)
        case (Some err)
        with False Inr res step show ?thesis by simp
      next
        case None
        from 3(3) [OF False Inr res [symmetric] None refl refl rest] False Inr res None
        have "lookup (fst (snd (copyRecursive r k L ((name, Dir sub) # rest) d log rel st))) REGISTRY_FILE
                = lookup (put d name child') REGISTRY_FILE
              \<or> (\<forall>reg. lookup (fst (snd (copyRecursive r k L ((name, Dir sub) # rest) d log rel st)))
                          REGISTRY_FILE \<noteq> Some (File (RegistryJson reg)))"
          by simp
        with step show ?thesis by metis
      qed
    qed
  qed
qed

lemma loadRegistry_by_lookup:
  "loadRegistry d = Inr (JRegistry r) \<longleftrightarrow>
     (lookup d REGISTRY_FILE = None \<and> r = emptyRegistry)
     \<or> lookup d REGISTRY_FILE = Some (File (RegistryJson r))"
  by (auto simp: loadRegistry_def existsSync_def readFileSync_def JSON_parse_def
      split: option.splits node.splits content.splits)

lemma merge_failed_target:
  assumes "fst (mergeAgentFolder tmp w src) = Some e"
  shows "globalDirOf (snd (mergeAgentFolder tmp w src)) = globalDirOf w
       \<or> (\<exists>es root k st0. sourceRoot tmp = Some (Dir es, root)
            \<and> globalDirOf (snd (mergeAgentFolder tmp w src))
                = fst (snd (copyRecursive root k (lockedPaths w) es (globalDirOf w) [] [] st0)))"
proof (cases "sourceRoot tmp")
  case None
  then show ?thesis by (simp add: mergeAgentFolder_def)
next
  case (Some p)
  obtain sa root where p: "p = (sa, root)" by (cases p)
  show ?thesis
  proof (cases "loadRegistry (globalDirOf w)")
    case (Inl err)
    with Some p show ?thesis by (simp add: mergeAgentFolder_def Let_def globalDirOf_def)
  next
    case (Inr j)
    show ?thesis
    proof (cases j)
      case (JIndex xs)
      with Some p Inr show ?thesis by (simp add: mergeAgentFolder_def Let_def globalDirOf_def)
    next
      case (JRegistry r0)
      show ?thesis
      proof (cases sa)
      case (File c)
      with Some p Inr JRegistry show ?thesis
        by (simp add: mergeAgentFolder_def Let_def globalDirOf_def split: prod.splits)
    next
      case (Dir es)
      define k where "k = kitId_of src"
      define st0 where "st0 = \<lparr> reg = fst (openKit k src r0 (now w)),
                            clock = snd (openKit k src r0 (now w)) \<rparr>"
      obtain e' d log st where cr:
        "copyRecursive root k (lockedPaths w) es (globalDirOf w) [] [] st0 = (e', d, log, st)"
        by (cases "copyRecursive root k (lockedPaths w) es (globalDirOf w) [] [] st0") auto
      have "globalDirOf (snd (mergeAgentFolder tmp w src)) = d"
        using assms Some p Inr JRegistry Dir cr
        by (auto simp: mergeAgentFolder_def Let_def globalDirOf_def k_def st0_def
            split: prod.splits option.splits sum.splits)
      with cr Some p Dir show ?thesis by (metis fst_conv snd_conv)
    qed
    qed
  qed
qed

lemma merge_unique_ok:
  assumes m: "mergeAgentFolder tempDir w repoSource = (None, w')"
    and r0: "loadRegistry (globalDirOf w) = Inr (JRegistry r0)"
    and d0: "\<forall>k i. kits r0 k = Some i \<longrightarrow> distinct (files i)"
  shows "\<exists>r'. loadRegistry (globalDirOf w') = Inr (JRegistry r')
           \<and> (\<forall>k i. kits r' k = Some i \<longrightarrow> distinct (files i))"
proof -
  from merge_kit_entry [OF m r0] obtain r' i zs where
    r': "loadRegistry (globalDirOf w') = Inr (JRegistry r')"
    and i: "kits r' (kitId_of repoSource) = Some i"
    and f: "files i = (case kits r0 (kitId_of repoSource) of None \<Rightarrow> [] | Some i0 \<Rightarrow> files i0) @ zs"
    and z: "set zs = set (lastCopied w')
               - (case kits r0 (kitId_of repoSource) of None \<Rightarrow> {} | Some i0 \<Rightarrow> set (files i0))"
    and dz: "distinct zs"
    and other: "\<forall>k'. k' \<noteq> kitId_of repoSource \<longrightarrow> kits r' k' = kits r0 k'"
    by (elim exE conjE)
  have di: "distinct (files i)"
  proof (cases "kits r0 (kitId_of repoSource)")
    case None
    with f dz show ?thesis by simp
  next
    case (Some i0)
    with d0 have "distinct (files i0)" by blast
    with Some f z dz show ?thesis by auto
  qed
  have "distinct (files j)" if "kits r' k = Some j" for k j
  proof (cases "k = kitId_of repoSource")
    case True
    with that i di show ?thesis by simp
  next
    case False
    with other that have "kits r0 k = Some j" by simp
    with d0 show ?thesis by blast
  qed
  with r' show ?thesis by blast
qed

lemma merge_unique_any_outcome:
  assumes I: "\<forall>r. loadRegistry (globalDirOf w) = Inr (JRegistry r)
                \<longrightarrow> (\<forall>k i. kits r k = Some i \<longrightarrow> distinct (files i))"
    and S: "\<forall>es root reg. sourceRoot tmp = Some (Dir es, root)
                \<longrightarrow> (REGISTRY_FILE, File (RegistryJson reg)) \<notin> set es"
  shows "\<forall>r. loadRegistry (globalDirOf (snd (mergeAgentFolder tmp w src))) = Inr (JRegistry r)
                \<longrightarrow> (\<forall>k i. kits r k = Some i \<longrightarrow> distinct (files i))"
proof (cases "fst (mergeAgentFolder tmp w src)")
  case None
  then have m: "mergeAgentFolder tmp w src = (None, snd (mergeAgentFolder tmp w src))"
    by (simp add: prod_eq_iff)
  from merge_loads [OF m] obtain r0 where r0: "loadRegistry (globalDirOf w) = Inr (JRegistry r0)" ..
  with I have "\<forall>k i. kits r0 k = Some i \<longrightarrow> distinct (files i)" by blast
  from merge_unique_ok [OF m r0 this] show ?thesis by auto
next
  case (Some e)
  let ?d' = "globalDirOf (snd (mergeAgentFolder tmp w src))"
  have entry: "lookup ?d' REGISTRY_FILE = lookup (globalDirOf w) REGISTRY_FILE
               \<or> (\<forall>reg. lookup ?d' REGISTRY_FILE \<noteq> Some (File (RegistryJson reg)))"
    using merge_failed_target [OF Some]
  proof
    assume "?d' = globalDirOf w"
    then show ?thesis by simp
  next
    assume "\<exists>es root k st0. sourceRoot tmp = Some (Dir es, root)
            \<and> ?d' = fst (snd (copyRecursive root k (lockedPaths w) es (globalDirOf w) [] [] st0))"
    then obtain es root k st0 where sr: "sourceRoot tmp = Some (Dir es, root)"
      and d': "?d' = fst (snd (copyRecursive root k (lockedPaths w) es (globalDirOf w) [] [] st0))"
      by blast
    from S sr have "\<forall>reg. (REGISTRY_FILE, File (RegistryJson reg)) \<notin> set es" by blast
    from copyRecursive_registry_entry [OF this, of root k "lockedPaths w" "globalDirOf w" "[]" "[]" st0]
    show ?thesis by (simp only: d')
  qed
  show ?thesis
  proof (intro allI impI)
    fix r k i
    assume l: "loadRegistry ?d' = Inr (JRegistry r)" and ki: "kits r k = Some i"
    from l have "(lookup ?d' REGISTRY_FILE = None \<and> r = emptyRegistry)
                 \<or> lookup ?d' REGISTRY_FILE = Some (File (RegistryJson r))"
      by (simp only: loadRegistry_by_lookup)
    then show "distinct (files i)"
    proof
      assume "lookup ?d' REGISTRY_FILE = None \<and> r = emptyRegistry"
      with ki show ?thesis by (simp add: emptyRegistry_def)
    next
      assume s: "lookup ?d' REGISTRY_FILE = Some (File (RegistryJson r))"
      with entry have "lookup (globalDirOf w) REGISTRY_FILE = Some (File (RegistryJson r))"
        by auto
      then have "loadRegistry (globalDirOf w) = Inr (JRegistry r)"
        by (simp only: loadRegistry_by_lookup) simp
      with I ki show ?thesis by blast
    qed
  qed
qed

lemma syncLoop_unique:
  assumes "\<forall>r. loadRegistry (globalDirOf w) = Inr (JRegistry r)
                \<longrightarrow> (\<forall>k i. kits r k = Some i \<longrightarrow> distinct (files i))"
    and "\<forall>src tmp es root reg. (src, Some tmp) \<in> set sources
                \<longrightarrow> sourceRoot tmp = Some (Dir es, root)
                \<longrightarrow> (REGISTRY_FILE, File (RegistryJson reg)) \<notin> set es"
  shows "\<forall>r. loadRegistry (globalDirOf (syncLoop sources w)) = Inr (JRegistry r)
                \<longrightarrow> (\<forall>k i. kits r k = Some i \<longrightarrow> distinct (files i))"
  using assms
proof (induction sources w rule: syncLoop.induct)
  case (1 w)
  then show ?case by simp
next
  case (2 src rest w)
  from 2(3) have "\<forall>src tmp es root reg. (src, Some tmp) \<in> set rest
                \<longrightarrow> sourceRoot tmp = Some (Dir es, root)
                \<longrightarrow> (REGISTRY_FILE, File (RegistryJson reg)) \<notin> set es" by auto
  from 2(1) [OF 2(2) this] show ?case by simp
next
  case (3 src tmpDir rest w)
  from 3(3) have rest: "\<forall>src tmp es root reg. (src, Some tmp) \<in> set rest
                \<longrightarrow> sourceRoot tmp = Some (Dir es, root)
                \<longrightarrow> (REGISTRY_FILE, File (RegistryJson reg)) \<notin> set es" by auto
  from 3(3) have S: "\<forall>es root reg. sourceRoot tmpDir = Some (Dir es, root)
                \<longrightarrow> (REGISTRY_FILE, File (RegistryJson reg)) \<notin> set es" by auto
  from merge_unique_any_outcome [OF 3(2) S]
  have "\<forall>r. loadRegistry (globalDirOf (snd (mergeAgentFolder tmpDir w src))) = Inr (JRegistry r)
                \<longrightarrow> (\<forall>k i. kits r k = Some i \<longrightarrow> distinct (files i))" .
  from 3(1) [OF this rest] show ?case by simp
qed

lemma syncLoop_append: "syncLoop (xs @ ys) w = syncLoop ys (syncLoop xs w)"
  by (induction xs w rule: syncLoop.induct) simp_all


text \<open>The definitions a merge on a concrete world unfolds to.\<close>

lemmas merge_eval = mergeAgentFolder_def sourceRoot_def lookup_def AGENT_FOLDER_def globalDirOf_def
  loadRegistry_def JSON_parse_def existsSync_def REGISTRY_FILE_def emptyRegistry_def openKit_def
  kitId_of_def skipped_def exclude_def globalFolderExclusions_def globalFileExclusions_def
  enterDir_def copyFileSync_def writeFileSync_def readFileSync_def path_join_def put_def
  saveRegistry_def track_def pushUnique_def commonFolders_def isAlnum_def lowerLetters_def
  upperLetters_def digits_def Let_def

subsection \<open>Claims about the merge\<close>

text \<open>C3.  A source that has neither the \<^verbatim>\<open>.agent\<close> entry nor any of the six common
  folder names makes the merge raise the "could not find" error, with the target
  directory, and so the registry file in it, and everything else exactly as before.\<close>

theorem merge_unrecognised_source:
  assumes "\<not> existsSync tempDir AGENT_FOLDER"
    and "\<forall>folder \<in> set commonFolders. \<not> existsSync tempDir folder"
  shows "mergeAgentFolder tempDir w repoSource = (Some NoAgentFolder, w)"
  using assms
  by (simp add: mergeAgentFolder_def sourceRoot_def existsSync_def list_ex_iff)

theorem merge_unrecognised_source_witness:
  "\<not> existsSync (Dir [(''README.md'', File (Text ''kit''))]) AGENT_FOLDER
   \<and> \<not> list_ex (existsSync (Dir [(''README.md'', File (Text ''kit''))])) commonFolders
   \<and> mergeAgentFolder (Dir [(''README.md'', File (Text ''kit''))])
        \<lparr> target = Some (Dir [(''rules'', Dir [])]), now = 7, lockedPaths = {}, lastCopied = [] \<rparr>
        ''github:user/repo''
      = (Some NoAgentFolder,
         \<lparr> target = Some (Dir [(''rules'', Dir [])]), now = 7, lockedPaths = {}, lastCopied = [] \<rparr>)"
proof -
  have h1: "\<not> existsSync (Dir [(''README.md'', File (Text ''kit''))]) AGENT_FOLDER"
    by (simp add: existsSync_def lookup_def AGENT_FOLDER_def)
  have h2: "\<forall>folder \<in> set commonFolders.
              \<not> existsSync (Dir [(''README.md'', File (Text ''kit''))]) folder"
    by (simp add: existsSync_def lookup_def commonFolders_def)
  have h3: "\<not> list_ex (existsSync (Dir [(''README.md'', File (Text ''kit''))])) commonFolders"
    by (simp add: existsSync_def lookup_def commonFolders_def)
  from h1 h3 merge_unrecognised_source [OF h1 h2] show ?thesis
    by (intro conjI)
qed

text \<open>C1 (as amended).  The merge does not leave saving to its caller. Wherever in the loop
  of \<^verbatim>\<open>syncCommand\<close> a call of \<^verbatim>\<open>mergeAgentFolder\<close> returns normally, the state after it is
  the state of the loop, and the call has loaded the registry from the registry file of the
  target directory as the earlier sources left it, updated it and written it back itself:
  afterwards the registry file exists and holds the loaded registry with the entries of the
  other kits untouched and the entry of this kit carrying a \<^verbatim>\<open>lastUpdated\<close> read during
  this call and every path this call copied. The loop keeps no registry and calls no
  save.\<close>

theorem merge_saves_registry_itself:
  assumes "mergeAgentFolder tempDir (syncLoop earlier w0) repoSource = (None, w')"
  shows "syncLoop (earlier @ [(repoSource, Some tempDir)]) w0 = w'
       \<and> (\<exists>r0 r' i t.
             loadRegistry (globalDirOf (syncLoop earlier w0)) = Inr (JRegistry r0)
           \<and> existsSync (globalDirOf w') REGISTRY_FILE
           \<and> loadRegistry (globalDirOf w') = Inr (JRegistry r')
           \<and> kits r' (kitId_of repoSource) = Some i
           \<and> lastUpdated i = Some t \<and> now (syncLoop earlier w0) \<le> t \<and> t < now w'
           \<and> set (lastCopied w') \<subseteq> set (files i)
           \<and> (\<forall>k. k \<noteq> kitId_of repoSource \<longrightarrow> kits r' k = kits r0 k))"
proof
  show "syncLoop (earlier @ [(repoSource, Some tempDir)]) w0 = w'"
    using assms by (simp add: syncLoop_append)
next
  let ?w = "syncLoop earlier w0"
  from merge_loads [OF assms] obtain r0 where r0: "loadRegistry (globalDirOf ?w) = Inr (JRegistry r0)" ..
  from merge_result [OF assms] have ex: "existsSync (globalDirOf w') REGISTRY_FILE"
    by (elim exE conjE)
  from merge_kit_entry [OF assms r0] obtain r' i zs where
    r': "loadRegistry (globalDirOf w') = Inr (JRegistry r')"
    and i: "kits r' (kitId_of repoSource) = Some i"
    and u: "lastUpdated i = (case kits r0 (kitId_of repoSource) of
                               None \<Rightarrow> Some (Suc (now ?w)) | Some i0 \<Rightarrow> Some (now ?w))"
    and f: "files i = (case kits r0 (kitId_of repoSource) of None \<Rightarrow> [] | Some i0 \<Rightarrow> files i0) @ zs"
    and z: "set zs = set (lastCopied w')
               - (case kits r0 (kitId_of repoSource) of None \<Rightarrow> {} | Some i0 \<Rightarrow> set (files i0))"
    and other: "\<forall>k'. k' \<noteq> kitId_of repoSource \<longrightarrow> kits r' k' = kits r0 k'"
    by (elim exE conjE)
  from merge_result [OF assms] r0 have
    t: "(kits r0 (kitId_of repoSource) = None \<longrightarrow> Suc (Suc (now ?w)) \<le> now w')
        \<and> (\<forall>i0. kits r0 (kitId_of repoSource) = Some i0 \<longrightarrow> Suc (now ?w) \<le> now w')"
    by auto
  have "\<exists>t. lastUpdated i = Some t \<and> now ?w \<le> t \<and> t < now w'"
    using u t by (cases "kits r0 (kitId_of repoSource)") auto
  moreover have "set (lastCopied w') \<subseteq> set (files i)"
    using f z by (cases "kits r0 (kitId_of repoSource)") auto
  ultimately show "\<exists>r0 r' i t.
             loadRegistry (globalDirOf ?w) = Inr (JRegistry r0)
           \<and> existsSync (globalDirOf w') REGISTRY_FILE
           \<and> loadRegistry (globalDirOf w') = Inr (JRegistry r')
           \<and> kits r' (kitId_of repoSource) = Some i
           \<and> lastUpdated i = Some t \<and> now ?w \<le> t \<and> t < now w'
           \<and> set (lastCopied w') \<subseteq> set (files i)
           \<and> (\<forall>k. k \<noteq> kitId_of repoSource \<longrightarrow> kits r' k = kits r0 k)"
    using r0 ex r' i other by blast
qed

theorem merge_saves_registry_itself_witness:
  "fst (mergeAgentFolder
          (Dir [(''.agent'', Dir [(''rules'', Dir [(''b.md'', File (Text ''B''))])])])
          (syncLoop
             [(''kit:a'', Some (Dir [(''.agent'', Dir [(''rules'', Dir [(''a.md'', File (Text ''A''))])])]))]
             \<lparr> target = None, now = 0, lockedPaths = {}, lastCopied = [] \<rparr>)
          ''kit:b'') = None
   \<and> existsSync (globalDirOf (syncLoop
          [(''kit:a'', Some (Dir [(''.agent'', Dir [(''rules'', Dir [(''a.md'', File (Text ''A''))])])])),
           (''kit:b'', Some (Dir [(''.agent'', Dir [(''rules'', Dir [(''b.md'', File (Text ''B''))])])]))]
          \<lparr> target = None, now = 0, lockedPaths = {}, lastCopied = [] \<rparr>)) REGISTRY_FILE"
proof -
  let ?w0 = "\<lparr> target = None, now = 0, lockedPaths = {}, lastCopied = [] \<rparr>"
  let ?A = "Dir [(''.agent'', Dir [(''rules'', Dir [(''a.md'', File (Text ''A''))])])]"
  let ?B = "Dir [(''.agent'', Dir [(''rules'', Dir [(''b.md'', File (Text ''B''))])])]"
  let ?M = "mergeAgentFolder ?B (syncLoop [(''kit:a'', Some ?A)] ?w0) ''kit:b''"
  have f: "fst ?M = None"
    by (simp add: merge_eval)
  then have h: "?M = (None, snd ?M)"
    by (simp add: prod_eq_iff)
  note c = merge_saves_registry_itself [OF h]
  from c [THEN conjunct2] have e: "existsSync (globalDirOf (snd ?M)) REGISTRY_FILE"
    by (elim exE conjE)
  from c [THEN conjunct1] have "syncLoop [(''kit:a'', Some ?A), (''kit:b'', Some ?B)] ?w0 = snd ?M"
    by simp
  with e have "existsSync (globalDirOf (syncLoop [(''kit:a'', Some ?A), (''kit:b'', Some ?B)] ?w0))
                 REGISTRY_FILE" by simp
  with f show ?thesis by (intro conjI)
qed

text \<open>C1 as stated does not hold: a sync of one source into an absent target directory, in
  which the loop only calls the merge, leaves the registry file written.\<close>

theorem merge_never_writes_registry_counterexample:
  "\<not> existsSync (globalDirOf \<lparr> target = None, now = 0, lockedPaths = {}, lastCopied = [] \<rparr>)
        REGISTRY_FILE
   \<and> existsSync (globalDirOf (syncLoop
          [(''kit:a'', Some (Dir [(''.agent'', Dir [(''rules'', Dir [(''a.md'', File (Text ''A''))])])]))]
          \<lparr> target = None, now = 0, lockedPaths = {}, lastCopied = [] \<rparr>)) REGISTRY_FILE"
  by (simp add: merge_eval)

text \<open>C2.  Two successive merges that return normally, for sources with different kit
  identifiers A then B, both of which copied the relative path \<open>P\<close>, that is, in both of
  which the call of \<^verbatim>\<open>copyFileSync\<close> for \<open>P\<close> returned (the log of a merge holds exactly those
  paths; for a source with no name twice and a target that admits it they are the files the
  loop reaches whose copy is not refused). In the registry persisted after the second merge
  the ownership entry of \<open>P\<close> names kit B, with a timestamp read during the second merge, and
  the \<^verbatim>\<open>files\<close> lists of A and of B both contain \<open>P\<close>. (The merge has no output channel, so
  there is no warning to give.)\<close>

theorem later_kit_owns_shared_path:
  assumes m1: "mergeAgentFolder tempA w0 srcA = (None, w1)"
    and m2: "mergeAgentFolder tempB w1 srcB = (None, w2)"
    and ne: "kitId_of srcA \<noteq> kitId_of srcB"
    and pA: "P \<in> set (lastCopied w1)"
    and pB: "P \<in> set (lastCopied w2)"
  shows "(\<exists>r2 iA iB t.
           loadRegistry (globalDirOf w2) = Inr (JRegistry r2)
         \<and> owners r2 P = Some \<lparr> kit = kitId_of srcB, updatedAt = t \<rparr>
         \<and> now w1 \<le> t \<and> t < now w2
         \<and> kits r2 (kitId_of srcA) = Some iA \<and> P \<in> set (files iA)
         \<and> kits r2 (kitId_of srcB) = Some iB \<and> P \<in> set (files iB))
       \<and> (\<forall>es root. sourceRoot tempA = Some (Dir es, root) \<and> distinctNames es
              \<and> admits es (globalDirOf w0)
            \<longrightarrow> lastCopied w1 = filter (\<lambda>p. p \<notin> lockedPaths w0) (reachedFiles root [] es))
       \<and> (\<forall>es root. sourceRoot tempB = Some (Dir es, root) \<and> distinctNames es
              \<and> admits es (globalDirOf w1)
            \<longrightarrow> lastCopied w2 = filter (\<lambda>p. p \<notin> lockedPaths w1) (reachedFiles root [] es))"
proof (intro conjI allI impI)
  from merge_loads [OF m1] obtain r0 where
    r0: "loadRegistry (globalDirOf w0) = Inr (JRegistry r0)" ..
  from merge_kit_entry [OF m1 r0] obtain r1 iA zsA where
    r1: "loadRegistry (globalDirOf w1) = Inr (JRegistry r1)"
    and iA: "kits r1 (kitId_of srcA) = Some iA"
    and fA: "files iA = (case kits r0 (kitId_of srcA) of None \<Rightarrow> [] | Some i0 \<Rightarrow> files i0) @ zsA"
    and zA: "set zsA = set (lastCopied w1)
               - (case kits r0 (kitId_of srcA) of None \<Rightarrow> {} | Some i0 \<Rightarrow> set (files i0))"
    by (elim exE conjE)
  from fA zA pA have inA: "P \<in> set (files iA)"
    by (cases "kits r0 (kitId_of srcA)") auto
  from merge_kit_entry [OF m2 r1] obtain r2 iB zsB where
    r2: "loadRegistry (globalDirOf w2) = Inr (JRegistry r2)"
    and iB: "kits r2 (kitId_of srcB) = Some iB"
    and fB: "files iB = (case kits r1 (kitId_of srcB) of None \<Rightarrow> [] | Some i0 \<Rightarrow> files i0) @ zsB"
    and zB: "set zsB = set (lastCopied w2)
               - (case kits r1 (kitId_of srcB) of None \<Rightarrow> {} | Some i0 \<Rightarrow> set (files i0))"
    and other: "\<forall>k'. k' \<noteq> kitId_of srcB \<longrightarrow> kits r2 k' = kits r1 k'"
    and own: "\<forall>q. q \<in> set (lastCopied w2) \<longrightarrow>
          (\<exists>t. owners r2 q = Some \<lparr> kit = kitId_of srcB, updatedAt = t \<rparr> \<and> now w1 \<le> t \<and> t < now w2)"
    by (elim exE conjE)
  from fB zB pB have inB: "P \<in> set (files iB)"
    by (cases "kits r1 (kitId_of srcB)") auto
  from other ne iA have kA: "kits r2 (kitId_of srcA) = Some iA" by simp
  from own pB obtain t where
    "owners r2 P = Some \<lparr> kit = kitId_of srcB, updatedAt = t \<rparr>" "now w1 \<le> t" "t < now w2"
    by blast
  with r2 kA inA iB inB show "\<exists>r2 iA iB t.
           loadRegistry (globalDirOf w2) = Inr (JRegistry r2)
         \<and> owners r2 P = Some \<lparr> kit = kitId_of srcB, updatedAt = t \<rparr>
         \<and> now w1 \<le> t \<and> t < now w2
         \<and> kits r2 (kitId_of srcA) = Some iA \<and> P \<in> set (files iA)
         \<and> kits r2 (kitId_of srcB) = Some iB \<and> P \<in> set (files iB)" by blast
next
  fix es root
  assume "sourceRoot tempA = Some (Dir es, root) \<and> distinctNames es \<and> admits es (globalDirOf w0)"
  then show "lastCopied w1 = filter (\<lambda>p. p \<notin> lockedPaths w0) (reachedFiles root [] es)"
    using merge_lastCopied [OF m1] by blast
next
  fix es root
  assume "sourceRoot tempB = Some (Dir es, root) \<and> distinctNames es \<and> admits es (globalDirOf w1)"
  then show "lastCopied w2 = filter (\<lambda>p. p \<notin> lockedPaths w1) (reachedFiles root [] es)"
    using merge_lastCopied [OF m2] by blast
qed

theorem later_kit_owns_shared_path_witness:
  "fst (mergeAgentFolder
          (Dir [(''.agent'', Dir [(''rules'', Dir [(''a.md'', File (Text ''A''))])])])
          \<lparr> target = None, now = 0, lockedPaths = {}, lastCopied = [] \<rparr> ''kit:a'') = None
   \<and> fst (mergeAgentFolder
          (Dir [(''.agent'', Dir [(''rules'', Dir [(''a.md'', File (Text ''B'')),
                                                   (''b.md'', File (Text ''B''))])])])
          (snd (mergeAgentFolder
             (Dir [(''.agent'', Dir [(''rules'', Dir [(''a.md'', File (Text ''A''))])])])
             \<lparr> target = None, now = 0, lockedPaths = {}, lastCopied = [] \<rparr> ''kit:a''))
          ''kit:b'') = None
   \<and> kitId_of ''kit:a'' = ''kit_a'' \<and> kitId_of ''kit:b'' = ''kit_b''
   \<and> kitId_of ''kit:a'' \<noteq> kitId_of ''kit:b''
   \<and> distinctNames [(''rules'', Dir [(''a.md'', File (Text ''A''))])]
   \<and> admits [(''rules'', Dir [(''a.md'', File (Text ''A''))])]
        (globalDirOf \<lparr> target = None, now = 0, lockedPaths = {}, lastCopied = [] \<rparr>)
   \<and> distinctNames [(''rules'', Dir [(''a.md'', File (Text ''B'')), (''b.md'', File (Text ''B''))])]
   \<and> admits [(''rules'', Dir [(''a.md'', File (Text ''B'')), (''b.md'', File (Text ''B''))])]
        (globalDirOf (snd (mergeAgentFolder
             (Dir [(''.agent'', Dir [(''rules'', Dir [(''a.md'', File (Text ''A''))])])])
             \<lparr> target = None, now = 0, lockedPaths = {}, lastCopied = [] \<rparr> ''kit:a'')))
   \<and> lastCopied (snd (mergeAgentFolder
          (Dir [(''.agent'', Dir [(''rules'', Dir [(''a.md'', File (Text ''A''))])])])
          \<lparr> target = None, now = 0, lockedPaths = {}, lastCopied = [] \<rparr> ''kit:a''))
       = [''rules/a.md'']
   \<and> lastCopied (snd (mergeAgentFolder
          (Dir [(''.agent'', Dir [(''rules'', Dir [(''a.md'', File (Text ''B'')),
                                                   (''b.md'', File (Text ''B''))])])])
          (snd (mergeAgentFolder
             (Dir [(''.agent'', Dir [(''rules'', Dir [(''a.md'', File (Text ''A''))])])])
             \<lparr> target = None, now = 0, lockedPaths = {}, lastCopied = [] \<rparr> ''kit:a''))
          ''kit:b''))
       = [''rules/a.md'', ''rules/b.md'']
   \<and> (\<exists>r2 iA iB t.
         loadRegistry (globalDirOf (snd (mergeAgentFolder
            (Dir [(''.agent'', Dir [(''rules'', Dir [(''a.md'', File (Text ''B'')),
                                                     (''b.md'', File (Text ''B''))])])])
            (snd (mergeAgentFolder
               (Dir [(''.agent'', Dir [(''rules'', Dir [(''a.md'', File (Text ''A''))])])])
               \<lparr> target = None, now = 0, lockedPaths = {}, lastCopied = [] \<rparr> ''kit:a''))
            ''kit:b''))) = Inr (JRegistry r2)
       \<and> owners r2 ''rules/a.md'' = Some \<lparr> kit = ''kit_b'', updatedAt = t \<rparr>
       \<and> kits r2 ''kit_a'' = Some iA \<and> ''rules/a.md'' \<in> set (files iA)
       \<and> kits r2 ''kit_b'' = Some iB \<and> ''rules/a.md'' \<in> set (files iB))"
proof -
  let ?A = "Dir [(''.agent'', Dir [(''rules'', Dir [(''a.md'', File (Text ''A''))])])]"
  let ?B = "Dir [(''.agent'', Dir [(''rules'', Dir [(''a.md'', File (Text ''B'')),
                                                   (''b.md'', File (Text ''B''))])])]"
  let ?esA = "[(''rules'', Dir [(''a.md'', File (Text ''A''))])]"
  let ?esB = "[(''rules'', Dir [(''a.md'', File (Text ''B'')), (''b.md'', File (Text ''B''))])]"
  let ?fresh = "\<lparr> target = None, now = 0, lockedPaths = {}, lastCopied = [] \<rparr>"
  let ?M1 = "mergeAgentFolder ?A ?fresh ''kit:a''"
  let ?M2 = "mergeAgentFolder ?B (snd ?M1) ''kit:b''"
  have f1: "fst ?M1 = None" by (simp add: merge_eval)
  have f2: "fst ?M2 = None" by (simp add: merge_eval)
  have h1: "?M1 = (None, snd ?M1)" using f1 by (simp add: prod_eq_iff)
  have h2: "?M2 = (None, snd ?M2)" using f2 by (simp add: prod_eq_iff)
  have ka: "kitId_of ''kit:a'' = ''kit_a''" by (simp add: merge_eval)
  have kb: "kitId_of ''kit:b'' = ''kit_b''" by (simp add: merge_eval)
  have ne: "kitId_of ''kit:a'' \<noteq> kitId_of ''kit:b''" by (simp add: merge_eval)
  have p1: "''rules/a.md'' \<in> set (lastCopied (snd ?M1))" by (simp add: merge_eval)
  have p2: "''rules/a.md'' \<in> set (lastCopied (snd ?M2))" by (simp add: merge_eval)
  have rA: "filter (\<lambda>p. p \<notin> lockedPaths ?fresh) (reachedFiles False [] ?esA) = [''rules/a.md'']"
    by (simp add: merge_eval)
  have lB: "lockedPaths (snd ?M1) = {}" by (simp add: merge_eval)
  have rB: "filter (\<lambda>p. p \<notin> lockedPaths (snd ?M1)) (reachedFiles False [] ?esB)
              = [''rules/a.md'', ''rules/b.md'']"
    by (simp add: lB) (simp add: merge_eval)
  have srA: "sourceRoot ?A = Some (Dir ?esA, False)" by (simp add: merge_eval)
  have srB: "sourceRoot ?B = Some (Dir ?esB, False)" by (simp add: merge_eval)
  have dA: "distinctNames ?esA" by simp
  have dB: "distinctNames ?esB" by simp
  have aA: "admits ?esA (globalDirOf ?fresh)" by (simp add: merge_eval admits_def)
  have aB: "admits ?esB (globalDirOf (snd ?M1))" by (simp add: merge_eval admits_def)
  note T = later_kit_owns_shared_path [OF h1 h2 ne p1 p2]
  from T [THEN conjunct2, THEN conjunct1] srA dA aA
  have "lastCopied (snd ?M1) = filter (\<lambda>p. p \<notin> lockedPaths ?fresh) (reachedFiles False [] ?esA)"
    by blast
  then have c1: "lastCopied (snd ?M1) = [''rules/a.md'']" by (simp only: rA)
  from T [THEN conjunct2, THEN conjunct2] srB dB aB
  have "lastCopied (snd ?M2)
          = filter (\<lambda>p. p \<notin> lockedPaths (snd ?M1)) (reachedFiles False [] ?esB)"
    by blast
  then have c2: "lastCopied (snd ?M2) = [''rules/a.md'', ''rules/b.md'']" by (simp only: rB)
  from T [THEN conjunct1] have c3: "\<exists>r2 iA iB t.
         loadRegistry (globalDirOf (snd ?M2)) = Inr (JRegistry r2)
       \<and> owners r2 ''rules/a.md'' = Some \<lparr> kit = ''kit_b'', updatedAt = t \<rparr>
       \<and> kits r2 ''kit_a'' = Some iA \<and> ''rules/a.md'' \<in> set (files iA)
       \<and> kits r2 ''kit_b'' = Some iB \<and> ''rules/a.md'' \<in> set (files iB)"
    unfolding ka kb by blast
  from f1 f2 ka kb ne dA aA dB aB c1 c2 c3 show ?thesis by (intro conjI)
qed



text \<open>C7.  Merging never duplicates an entry of a \<^verbatim>\<open>files\<close> list. When every kit's list in
  the persisted registry is free of repetitions before a merge that returns normally, so
  is every kit's list in the registry persisted after it. And over the whole loop of a
  sync, with any number of sources and merges of the same kit, whether they return
  normally or raise: starting from a registry file whose lists are free of repetitions (or
  from none), every list of the registry on disk afterwards is free of repetitions,
  provided no downloaded kit carries a registry document of its own at the top of its
  source root (a merge that raises after copying it would leave that file in place).\<close>

theorem merge_keeps_files_unique:
  "(mergeAgentFolder tempDir w repoSource = (None, w')
      \<and> loadRegistry (globalDirOf w) = Inr (JRegistry r0)
      \<and> (\<forall>k i. kits r0 k = Some i \<longrightarrow> distinct (files i))
    \<longrightarrow> (\<exists>r'. loadRegistry (globalDirOf w') = Inr (JRegistry r')
            \<and> (\<forall>k i. kits r' k = Some i \<longrightarrow> distinct (files i))))
   \<and> ((\<forall>r. loadRegistry (globalDirOf w0) = Inr (JRegistry r)
             \<longrightarrow> (\<forall>k i. kits r k = Some i \<longrightarrow> distinct (files i)))
      \<and> (\<forall>src tmp es root reg. (src, Some tmp) \<in> set sources
             \<longrightarrow> sourceRoot tmp = Some (Dir es, root)
             \<longrightarrow> (REGISTRY_FILE, File (RegistryJson reg)) \<notin> set es)
    \<longrightarrow> (\<forall>r. loadRegistry (globalDirOf (syncLoop sources w0)) = Inr (JRegistry r)
             \<longrightarrow> (\<forall>k i. kits r k = Some i \<longrightarrow> distinct (files i))))"
proof (intro conjI impI)
  assume "mergeAgentFolder tempDir w repoSource = (None, w')
      \<and> loadRegistry (globalDirOf w) = Inr (JRegistry r0)
      \<and> (\<forall>k i. kits r0 k = Some i \<longrightarrow> distinct (files i))"
  then show "\<exists>r'. loadRegistry (globalDirOf w') = Inr (JRegistry r')
            \<and> (\<forall>k i. kits r' k = Some i \<longrightarrow> distinct (files i))"
    using merge_unique_ok [of tempDir w repoSource w' r0] by blast
next
  assume a: "(\<forall>r. loadRegistry (globalDirOf w0) = Inr (JRegistry r)
             \<longrightarrow> (\<forall>k i. kits r k = Some i \<longrightarrow> distinct (files i)))
      \<and> (\<forall>src tmp es root reg. (src, Some tmp) \<in> set sources
             \<longrightarrow> sourceRoot tmp = Some (Dir es, root)
             \<longrightarrow> (REGISTRY_FILE, File (RegistryJson reg)) \<notin> set es)"
  show "\<forall>r. loadRegistry (globalDirOf (syncLoop sources w0)) = Inr (JRegistry r)
             \<longrightarrow> (\<forall>k i. kits r k = Some i \<longrightarrow> distinct (files i))"
    using a [THEN conjunct1] a [THEN conjunct2] by (rule syncLoop_unique)
qed

theorem merge_keeps_files_unique_witness:
  "fst (mergeAgentFolder
          (Dir [(''.agent'', Dir [(''rules'', Dir [(''a.md'', File (Text ''A''))])])])
          \<lparr> target = Some (Dir [(''.sync-registry.json'', File (RegistryJson
                 \<lparr> kits = [''kit_a'' \<mapsto> \<lparr> source = ''kit:a'', installedAt = 0,
                                          files = [''rules/a.md''], lastUpdated = Some 1 \<rparr>],
                   owners = [''rules/a.md'' \<mapsto> \<lparr> kit = ''kit_a'', updatedAt = 2 \<rparr>] \<rparr>))]),
            now = 3, lockedPaths = {}, lastCopied = [] \<rparr> ''kit:a'') = None
   \<and> distinct (files \<lparr> source = ''kit:a'', installedAt = 0,
                          files = [''rules/a.md''], lastUpdated = Some 1 \<rparr>)
   \<and> (\<exists>r'. loadRegistry (globalDirOf (snd (mergeAgentFolder
          (Dir [(''.agent'', Dir [(''rules'', Dir [(''a.md'', File (Text ''A''))])])])
          \<lparr> target = Some (Dir [(''.sync-registry.json'', File (RegistryJson
                 \<lparr> kits = [''kit_a'' \<mapsto> \<lparr> source = ''kit:a'', installedAt = 0,
                                          files = [''rules/a.md''], lastUpdated = Some 1 \<rparr>],
                   owners = [''rules/a.md'' \<mapsto> \<lparr> kit = ''kit_a'', updatedAt = 2 \<rparr>] \<rparr>))]),
            now = 3, lockedPaths = {}, lastCopied = [] \<rparr> ''kit:a''))) = Inr (JRegistry r')
        \<and> (\<forall>k i. kits r' k = Some i \<longrightarrow> distinct (files i)))
   \<and> (\<exists>r. loadRegistry (globalDirOf (syncLoop
          [(''kit:a'', Some (Dir [(''.agent'', Dir [(''rules'', Dir [(''a.md'', File (Text ''A''))])])])),
           (''kit:a'', Some (Dir [(''.agent'', Dir [(''rules'', Dir [(''a.md'', File (Text ''A2''))])])]))]
          \<lparr> target = None, now = 0, lockedPaths = {}, lastCopied = [] \<rparr>)) = Inr (JRegistry r)
        \<and> (\<forall>k i. kits r k = Some i \<longrightarrow> distinct (files i)))"
proof -
  let ?old = "\<lparr> kits = [''kit_a'' \<mapsto> \<lparr> source = ''kit:a'', installedAt = 0,
                                          files = [''rules/a.md''], lastUpdated = Some 1 \<rparr>],
                   owners = [''rules/a.md'' \<mapsto> \<lparr> kit = ''kit_a'', updatedAt = 2 \<rparr>] \<rparr>"
  let ?w = "\<lparr> target = Some (Dir [(''.sync-registry.json'', File (RegistryJson ?old))]),
            now = 3, lockedPaths = {}, lastCopied = [] \<rparr>"
  let ?A = "Dir [(''.agent'', Dir [(''rules'', Dir [(''a.md'', File (Text ''A''))])])]"
  let ?B = "Dir [(''.agent'', Dir [(''rules'', Dir [(''a.md'', File (Text ''A2''))])])]"
  let ?fresh = "\<lparr> target = None, now = 0, lockedPaths = {}, lastCopied = [] \<rparr>"
  let ?M = "mergeAgentFolder ?A ?w ''kit:a''"
  let ?S = "syncLoop [(''kit:a'', Some ?A), (''kit:a'', Some ?B)] ?fresh"
  have f: "fst ?M = None" by (simp add: merge_eval)
  have h: "?M = (None, snd ?M)" using f by (simp add: prod_eq_iff)
  have l: "loadRegistry (globalDirOf ?w) = Inr (JRegistry ?old)" by (simp add: merge_eval)
  have d: "\<forall>k i. kits ?old k = Some i \<longrightarrow> distinct (files i)" by simp
  have d': "distinct (files \<lparr> source = ''kit:a'', installedAt = 0,
                          files = [''rules/a.md''], lastUpdated = Some 1 \<rparr>)" by simp
  note T1 = merge_keeps_files_unique
    [where tempDir = ?A and w = ?w and repoSource = "''kit:a''" and w' = "snd ?M" and ?r0.0 = ?old,
      THEN conjunct1]
  from T1 h l d have c1: "\<exists>r'. loadRegistry (globalDirOf (snd ?M)) = Inr (JRegistry r')
        \<and> (\<forall>k i. kits r' k = Some i \<longrightarrow> distinct (files i))" by blast
  have i0: "\<forall>r. loadRegistry (globalDirOf ?fresh) = Inr (JRegistry r)
             \<longrightarrow> (\<forall>k i. kits r k = Some i \<longrightarrow> distinct (files i))"
    by (simp add: merge_eval)
  have s0: "\<forall>src tmp es root reg.
             (src, Some tmp) \<in> set [(''kit:a'', Some ?A), (''kit:a'', Some ?B)]
             \<longrightarrow> sourceRoot tmp = Some (Dir es, root)
             \<longrightarrow> (REGISTRY_FILE, File (RegistryJson reg)) \<notin> set es"
    by (auto simp: sourceRoot_def lookup_def AGENT_FOLDER_def)
  note T2 = merge_keeps_files_unique
    [where ?w0.0 = ?fresh and sources = "[(''kit:a'', Some ?A), (''kit:a'', Some ?B)]",
      THEN conjunct2]
  from T2 i0 s0 have u: "\<forall>r. loadRegistry (globalDirOf ?S) = Inr (JRegistry r)
             \<longrightarrow> (\<forall>k i. kits r k = Some i \<longrightarrow> distinct (files i))" by blast
  have e: "\<exists>r. loadRegistry (globalDirOf ?S) = Inr (JRegistry r)" by (simp add: merge_eval)
  from u e have c2: "\<exists>r. loadRegistry (globalDirOf ?S) = Inr (JRegistry r)
        \<and> (\<forall>k i. kits r k = Some i \<longrightarrow> distinct (files i))" by blast
  from f d' c1 c2 show ?thesis by (intro conjI)
qed

text \<open>C10.  The kit identifier has the length of the source, keeps its alphanumeric
  characters where they are and has an underscore at every other position; so the sources
  with the identifier of a given one are exactly those that agree with it position by
  position except where both have a non-alphanumeric character. When the first of two
  such sources is merged into a registry without that identifier and the second is merged
  next, the second merge finds the entry of the first: \<^verbatim>\<open>source\<close> and \<^verbatim>\<open>installedAt\<close> stay
  as the first merge wrote them, \<^verbatim>\<open>lastUpdated\<close> becomes the time read by the second merge,
  and the paths the second merge copied (for a source with no name twice and a target that
  admits it: the files its loop reaches whose copy is not refused) are pushed in order onto
  the same list, after the paths of the first merge, unless already in it; no other entry
  is added or changed.\<close>

theorem same_kitId_shares_entry:
  assumes same: "list_all2 (\<lambda>a b. a = b \<or> \<not> isAlnum a \<and> \<not> isAlnum b) s1 s2"
    and r0: "loadRegistry (globalDirOf w0) = Inr (JRegistry r0)"
    and fresh: "kits r0 (kitId_of s1) = None"
    and m1: "mergeAgentFolder temp1 w0 s1 = (None, w1)"
    and m2: "mergeAgentFolder temp2 w1 s2 = (None, w2)"
  shows "length (kitId_of s1) = length s1
       \<and> (\<forall>n. n < length s1 \<longrightarrow>
             kitId_of s1 ! n = (if isAlnum (s1 ! n) then s1 ! n else CHR ''_''))
       \<and> (\<forall>s. kitId_of s = kitId_of s1
             \<longleftrightarrow> list_all2 (\<lambda>a b. a = b \<or> \<not> isAlnum a \<and> \<not> isAlnum b) s1 s)
       \<and> kitId_of s2 = kitId_of s1
       \<and> (\<exists>r1 r2 i1 i2 zs.
             loadRegistry (globalDirOf w1) = Inr (JRegistry r1)
           \<and> loadRegistry (globalDirOf w2) = Inr (JRegistry r2)
           \<and> kits r1 (kitId_of s1) = Some i1
           \<and> kits r2 (kitId_of s1) = Some i2
           \<and> source i1 = s1 \<and> installedAt i1 = now w0
           \<and> files i1 = fold pushUnique (lastCopied w1) []
           \<and> source i2 = s1 \<and> installedAt i2 = now w0
           \<and> lastUpdated i2 = Some (now w1)
           \<and> files i2 = fold pushUnique (lastCopied w2) (files i1)
           \<and> files i2 = files i1 @ zs
           \<and> set zs = set (lastCopied w2) - set (files i1) \<and> distinct zs
           \<and> (\<forall>k. k \<noteq> kitId_of s1 \<longrightarrow> kits r2 k = kits r1 k))
       \<and> (\<forall>es root. sourceRoot temp2 = Some (Dir es, root) \<and> distinctNames es
              \<and> admits es (globalDirOf w1)
            \<longrightarrow> lastCopied w2 = filter (\<lambda>p. p \<notin> lockedPaths w1) (reachedFiles root [] es))"
proof (intro conjI allI impI)
  show "length (kitId_of s1) = length s1" by (rule kitId_of_length)
next
  fix n assume "n < length s1"
  then show "kitId_of s1 ! n = (if isAlnum (s1 ! n) then s1 ! n else CHR ''_'')"
    by (rule kitId_of_nth)
next
  fix s
  show "kitId_of s = kitId_of s1
          \<longleftrightarrow> list_all2 (\<lambda>a b. a = b \<or> \<not> isAlnum a \<and> \<not> isAlnum b) s1 s"
    by (rule kitId_of_eq_iff)
next
  show "kitId_of s2 = kitId_of s1" using same by (simp only: kitId_of_eq_iff)
next
  have k: "kitId_of s2 = kitId_of s1" using same by (simp only: kitId_of_eq_iff)
  from merge_result [OF m1] r0 fresh obtain r1 where
    r1: "loadRegistry (globalDirOf w1) = Inr (JRegistry r1)"
    and i1: "kits r1 (kitId_of s1)
            = Some \<lparr> source = s1, installedAt = now w0,
                     files = fold pushUnique (lastCopied w1) [], lastUpdated = Some (Suc (now w0)) \<rparr>"
    by auto
  define i1 where "i1 = \<lparr> source = s1, installedAt = now w0,
                     files = fold pushUnique (lastCopied w1) [], lastUpdated = Some (Suc (now w0)) \<rparr>"
  from merge_result [OF m2] r1 i1 k obtain r2 where
    r2: "loadRegistry (globalDirOf w2) = Inr (JRegistry r2)"
    and i2: "kits r2 (kitId_of s1)
            = Some (i1\<lparr> files := fold pushUnique (lastCopied w2) (files i1),
                         lastUpdated := Some (now w1) \<rparr>)"
    and other: "\<forall>k'. k' \<noteq> kitId_of s1 \<longrightarrow> kits r2 k' = kits r1 k'"
    unfolding i1_def by auto
  from fold_pushUnique_append [of "lastCopied w2" "files i1"] obtain zs where
    zs: "fold pushUnique (lastCopied w2) (files i1) = files i1 @ zs"
      "set zs = set (lastCopied w2) - set (files i1)" "distinct zs"
    by auto
  define i2 where "i2 = i1\<lparr> files := fold pushUnique (lastCopied w2) (files i1),
                         lastUpdated := Some (now w1) \<rparr>"
  have "loadRegistry (globalDirOf w1) = Inr (JRegistry r1)
           \<and> loadRegistry (globalDirOf w2) = Inr (JRegistry r2)
           \<and> kits r1 (kitId_of s1) = Some i1
           \<and> kits r2 (kitId_of s1) = Some i2
           \<and> source i1 = s1 \<and> installedAt i1 = now w0
           \<and> files i1 = fold pushUnique (lastCopied w1) []
           \<and> source i2 = s1 \<and> installedAt i2 = now w0
           \<and> lastUpdated i2 = Some (now w1)
           \<and> files i2 = fold pushUnique (lastCopied w2) (files i1)
           \<and> files i2 = files i1 @ zs
           \<and> set zs = set (lastCopied w2) - set (files i1) \<and> distinct zs
           \<and> (\<forall>k. k \<noteq> kitId_of s1 \<longrightarrow> kits r2 k = kits r1 k)"
    using r1 r2 i1 i2 other zs by (simp add: i1_def i2_def)
  then show "\<exists>r1 r2 i1 i2 zs.
             loadRegistry (globalDirOf w1) = Inr (JRegistry r1)
           \<and> loadRegistry (globalDirOf w2) = Inr (JRegistry r2)
           \<and> kits r1 (kitId_of s1) = Some i1
           \<and> kits r2 (kitId_of s1) = Some i2
           \<and> source i1 = s1 \<and> installedAt i1 = now w0
           \<and> files i1 = fold pushUnique (lastCopied w1) []
           \<and> source i2 = s1 \<and> installedAt i2 = now w0
           \<and> lastUpdated i2 = Some (now w1)
           \<and> files i2 = fold pushUnique (lastCopied w2) (files i1)
           \<and> files i2 = files i1 @ zs
           \<and> set zs = set (lastCopied w2) - set (files i1) \<and> distinct zs
           \<and> (\<forall>k. k \<noteq> kitId_of s1 \<longrightarrow> kits r2 k = kits r1 k)"
    by blast
next
  fix es root
  assume "sourceRoot temp2 = Some (Dir es, root) \<and> distinctNames es \<and> admits es (globalDirOf w1)"
  then show "lastCopied w2 = filter (\<lambda>p. p \<notin> lockedPaths w1) (reachedFiles root [] es)"
    using merge_lastCopied [OF m2] by blast
qed

theorem same_kitId_shares_entry_witness:
  "list_all2 (\<lambda>a b. a = b \<or> \<not> isAlnum a \<and> \<not> isAlnum b) ''user/kit'' ''user:kit''
   \<and> ''user/kit'' \<noteq> ''user:kit''
   \<and> loadRegistry (globalDirOf \<lparr> target = None, now = 0, lockedPaths = {}, lastCopied = [] \<rparr>)
        = Inr (JRegistry emptyRegistry)
   \<and> kits emptyRegistry (kitId_of ''user/kit'') = None
   \<and> fst (mergeAgentFolder
          (Dir [(''.agent'', Dir [(''rules'', Dir [(''a.md'', File (Text ''A''))])])])
          \<lparr> target = None, now = 0, lockedPaths = {}, lastCopied = [] \<rparr> ''user/kit'') = None
   \<and> fst (mergeAgentFolder
          (Dir [(''.agent'', Dir [(''rules'', Dir [(''a.md'', File (Text ''A2'')),
                                                   (''b.md'', File (Text ''B''))])])])
          (snd (mergeAgentFolder
             (Dir [(''.agent'', Dir [(''rules'', Dir [(''a.md'', File (Text ''A''))])])])
             \<lparr> target = None, now = 0, lockedPaths = {}, lastCopied = [] \<rparr> ''user/kit''))
          ''user:kit'') = None
   \<and> kitId_of ''user/kit'' = ''user_kit''
   \<and> kitId_of ''user:kit'' = kitId_of ''user/kit''
   \<and> kitId_of ''user/kit'' ! 4 = CHR ''_''
   \<and> kitId_of ''user-kit'' = kitId_of ''user/kit''
   \<and> kitId_of ''userAkit'' \<noteq> kitId_of ''user/kit''
   \<and> lastCopied (snd (mergeAgentFolder
          (Dir [(''.agent'', Dir [(''rules'', Dir [(''a.md'', File (Text ''A2'')),
                                                   (''b.md'', File (Text ''B''))])])])
          (snd (mergeAgentFolder
             (Dir [(''.agent'', Dir [(''rules'', Dir [(''a.md'', File (Text ''A''))])])])
             \<lparr> target = None, now = 0, lockedPaths = {}, lastCopied = [] \<rparr> ''user/kit''))
          ''user:kit'')) = [''rules/a.md'', ''rules/b.md'']
   \<and> (\<exists>r2 i2.
         loadRegistry (globalDirOf (snd (mergeAgentFolder
            (Dir [(''.agent'', Dir [(''rules'', Dir [(''a.md'', File (Text ''A2'')),
                                                     (''b.md'', File (Text ''B''))])])])
            (snd (mergeAgentFolder
               (Dir [(''.agent'', Dir [(''rules'', Dir [(''a.md'', File (Text ''A''))])])])
               \<lparr> target = None, now = 0, lockedPaths = {}, lastCopied = [] \<rparr> ''user/kit''))
            ''user:kit''))) = Inr (JRegistry r2)
       \<and> kits r2 ''user_kit'' = Some i2
       \<and> source i2 = ''user/kit'' \<and> installedAt i2 = 0 \<and> lastUpdated i2 = Some 3
       \<and> files i2 = [''rules/a.md'', ''rules/b.md''])"
proof -
  let ?fresh = "\<lparr> target = None, now = 0, lockedPaths = {}, lastCopied = [] \<rparr>"
  let ?esB = "[(''rules'', Dir [(''a.md'', File (Text ''A2'')), (''b.md'', File (Text ''B''))])]"
  let ?M1 = "mergeAgentFolder
          (Dir [(''.agent'', Dir [(''rules'', Dir [(''a.md'', File (Text ''A''))])])])
          ?fresh ''user/kit''"
  let ?M2 = "mergeAgentFolder (Dir [(''.agent'', Dir ?esB)]) (snd ?M1) ''user:kit''"
  have s: "list_all2 (\<lambda>a b. a = b \<or> \<not> isAlnum a \<and> \<not> isAlnum b) ''user/kit'' ''user:kit''"
    by (simp add: merge_eval)
  have n: "''user/kit'' \<noteq> ''user:kit''" by simp
  have l: "loadRegistry (globalDirOf ?fresh) = Inr (JRegistry emptyRegistry)"
    by (simp add: merge_eval)
  have e: "kits emptyRegistry (kitId_of ''user/kit'') = None" by (simp add: emptyRegistry_def)
  have f1: "fst ?M1 = None" by (simp add: merge_eval)
  have f2: "fst ?M2 = None" by (simp add: merge_eval)
  have h1: "?M1 = (None, snd ?M1)" using f1 by (simp add: prod_eq_iff)
  have h2: "?M2 = (None, snd ?M2)" using f2 by (simp add: prod_eq_iff)
  have k: "kitId_of ''user/kit'' = ''user_kit''" by (simp add: merge_eval)
  have l1: "lastCopied (snd ?M1) = [''rules/a.md'']" by (simp add: merge_eval)
  have n1: "now (snd ?M1) = 3" by (simp add: merge_eval)
  have lk: "lockedPaths (snd ?M1) = {}" by (simp add: merge_eval)
  have rB: "filter (\<lambda>p. p \<notin> lockedPaths (snd ?M1)) (reachedFiles False [] ?esB)
              = [''rules/a.md'', ''rules/b.md'']"
    by (simp add: lk) (simp add: merge_eval)
  have srB: "sourceRoot (Dir [(''.agent'', Dir ?esB)]) = Some (Dir ?esB, False)"
    by (simp add: merge_eval)
  have dB: "distinctNames ?esB" by simp
  have aB: "admits ?esB (globalDirOf (snd ?M1))" by (simp add: merge_eval admits_def)
  have q1: "list_all2 (\<lambda>a b. a = b \<or> \<not> isAlnum a \<and> \<not> isAlnum b) ''user/kit'' ''user-kit''"
    by (simp add: merge_eval)
  have q2: "\<not> list_all2 (\<lambda>a b. a = b \<or> \<not> isAlnum a \<and> \<not> isAlnum b) ''user/kit'' ''userAkit''"
    by (simp add: merge_eval)
  note c = same_kitId_shares_entry [OF s l e h1 h2]
  note c2 = c [THEN conjunct2, THEN conjunct1, rule_format]
  have i4: "(4::nat) < length ''user/kit''" by simp
  have a4: "\<not> isAlnum (''user/kit'' ! 4)"
    by (simp add: isAlnum_def lowerLetters_def upperLetters_def digits_def)
  from c2 [OF i4] a4 have k4: "kitId_of ''user/kit'' ! 4 = CHR ''_''"
    by (simp only: if_False)
  note c3 = c [THEN conjunct2, THEN conjunct2, THEN conjunct1, rule_format]
  from q1 have k5: "kitId_of ''user-kit'' = kitId_of ''user/kit''" by (rule c3 [THEN iffD2])
  have k6: "kitId_of ''userAkit'' \<noteq> kitId_of ''user/kit''"
  proof
    assume "kitId_of ''userAkit'' = kitId_of ''user/kit''"
    then have "list_all2 (\<lambda>a b. a = b \<or> \<not> isAlnum a \<and> \<not> isAlnum b) ''user/kit'' ''userAkit''"
      by (rule c3 [THEN iffD1])
    with q2 show False ..
  qed
  note c4 = c [THEN conjunct2, THEN conjunct2, THEN conjunct2, THEN conjunct1]
  note c5 = c [THEN conjunct2, THEN conjunct2, THEN conjunct2, THEN conjunct2, THEN conjunct1]
  note c6 = c [THEN conjunct2, THEN conjunct2, THEN conjunct2, THEN conjunct2, THEN conjunct2,
               rule_format]
  have "lastCopied (snd ?M2)
                  = filter (\<lambda>p. p \<notin> lockedPaths (snd ?M1)) (reachedFiles False [] ?esB)"
    by (rule c6) (intro conjI srB dB aB)
  then have l2: "lastCopied (snd ?M2) = [''rules/a.md'', ''rules/b.md'']" by (simp only: rB)
  from c5 have ex: "\<exists>r2 i2.
         loadRegistry (globalDirOf (snd ?M2)) = Inr (JRegistry r2)
       \<and> kits r2 ''user_kit'' = Some i2
       \<and> source i2 = ''user/kit'' \<and> installedAt i2 = 0 \<and> lastUpdated i2 = Some 3
       \<and> files i2 = [''rules/a.md'', ''rules/b.md'']"
  proof (elim exE conjE)
    fix r1 r2 i1 i2 zs
    assume r2: "loadRegistry (globalDirOf (snd ?M2)) = Inr (JRegistry r2)"
      and i2: "kits r2 (kitId_of ''user/kit'') = Some i2"
      and fi1: "files i1 = fold pushUnique (lastCopied (snd ?M1)) []"
      and s2: "source i2 = ''user/kit''" and t2: "installedAt i2 = now ?fresh"
      and u2: "lastUpdated i2 = Some (now (snd ?M1))"
      and fi2: "files i2 = fold pushUnique (lastCopied (snd ?M2)) (files i1)"
    from fi1 l1 have "files i1 = [''rules/a.md'']" by (simp add: pushUnique_def)
    with fi2 l2 have fl: "files i2 = [''rules/a.md'', ''rules/b.md'']"
      by (simp add: pushUnique_def)
    from u2 n1 have u: "lastUpdated i2 = Some 3" by simp
    from t2 have t: "installedAt i2 = 0" by simp
    from i2 k have i: "kits r2 ''user_kit'' = Some i2" by simp
    from r2 i s2 t u fl show ?thesis by blast
  qed
  from s n l e f1 f2 k c4 k4 k5 k6 l2 ex show ?thesis by (intro conjI)
qed

section \<open>Properties of the Skill Indexer\<close>

text \<open>Building the entry of a skill folder raises, whatever the folder holds.\<close>

lemma skillEntry_raises: "skillEntry folderName parentCategory c = Inl ReferenceError"
  by (simp add: skillEntry_def Let_def split: prod.splits)

text \<open>So a scan that returns has pushed nothing.\<close>

lemma processDir_pushes_nothing:
  "(processDir folderName es parentCategory skills = Inr skills' \<longrightarrow> skills' = skills)"
  "(processEntries es skills = Inr skills' \<longrightarrow> skills' = skills)"
proof (induction folderName es parentCategory skills and es skills
       arbitrary: skills' and skills' rule: processDir_processEntries.induct)
  case (1 folderName es parentCategory skills)
  show ?case
  proof (cases "hasSkillMd es")
    case True
    then show ?thesis
      by (simp add: skillEntry_raises split: sum.splits)
  next
    case False
    show ?thesis
    proof (cases "parentCategory = []")
      case True
      with False 1 [OF False True] show ?thesis by simp
    next
      case nonempty: False
      with False show ?thesis by simp
    qed
  qed
next
  case (2 skills)
  show ?case by simp
next
  case (3 name c rest skills)
  then show ?case by simp
next
  case (4 name sub rest skills)
  show ?case
  proof (cases "startsWith name ''.''")
    case True
    with 4(3) [of skills'] show ?thesis by simp
  next
    case False
    show ?thesis
    proof (cases "processDir name sub name skills")
      case (Inl e)
      with False show ?thesis by simp
    next
      case (Inr s1)
      from 4(1) [OF False, of s1] Inr have "s1 = skills" by simp
      with 4(2) [OF False Inr, of skills'] False Inr show ?thesis by simp
    qed
  qed
qed

text \<open>The definitions an index run on a concrete directory unfolds to.\<close>

lemmas index_eval = generateSkillsIndex_def lookup_def hasSkillMd_def toLowerCase_def
  toLowerChar_def upperLetters_def lowerLetters_def digits_def readFileSync_def writeFileSync_def
  startsWith_def skillEntry_raises frontmatterFields_def frontmatter_def fmMatch_def
  fieldMatch_def trim_def isSpace_def isLineTerminator_def Let_def

text \<open>C4 (as amended).  Without a \<^verbatim>\<open>skills\<close> entry in the target directory the index
  generation returns at once: no error, nothing written (the directory, with any index
  file in it, is as before) and the warning logged only when not quiet. With a \<^verbatim>\<open>skills\<close>
  directory, a run that returns normally has replaced the index file by the array built
  from the listing of \<^verbatim>\<open>skills\<close> alone, starting from the empty array, and has changed no
  other entry of the target directory. (That array is empty in every run that returns: a
  run that finds a skill folder raises.)\<close>

theorem index_overwritten_when_skills_exist:
  "(lookup targetDir ''skills'' = None \<longrightarrow>
      generateSkillsIndex targetDir quiet
        = Inr (targetDir, if quiet then [] else [NoSkillsFolder]))
   \<and> (lookup targetDir ''skills'' = Some (Dir es)
        \<and> generateSkillsIndex targetDir quiet = Inr (d, msgs) \<longrightarrow>
        (\<exists>skills. processDir ''skills'' es [] [] = Inr skills
           \<and> lookup d ''skills_index.json'' = Some (File (IndexJson skills))
           \<and> (\<forall>n. n \<noteq> ''skills_index.json'' \<longrightarrow> lookup d n = lookup targetDir n)
           \<and> msgs = (if quiet then [] else [GeneratedIndex (length skills)])
           \<and> skills = []))"
proof (intro conjI impI)
  assume "lookup targetDir ''skills'' = None"
  then show "generateSkillsIndex targetDir quiet
        = Inr (targetDir, if quiet then [] else [NoSkillsFolder])"
    by (simp add: generateSkillsIndex_def)
next
  assume a: "lookup targetDir ''skills'' = Some (Dir es)
        \<and> generateSkillsIndex targetDir quiet = Inr (d, msgs)"
  then obtain skills where s: "processDir ''skills'' es [] [] = Inr skills"
    by (cases "processDir ''skills'' es [] []") (auto simp: generateSkillsIndex_def)
  from processDir_pushes_nothing(1) [of "''skills''" es "[]" "[]" skills] s
  have e: "skills = []" by simp
  from a s obtain des where des: "targetDir = Dir des"
    by (cases targetDir) (auto simp: lookup_def)
  from a s des have w: "writeFileSync targetDir ''skills_index.json'' (IndexJson skills) = Inr d"
    and m: "msgs = (if quiet then [] else [GeneratedIndex (length skills)])"
    by (auto simp: generateSkillsIndex_def split: sum.splits)
  from w des have d: "d = Dir (put_entry ''skills_index.json'' (File (IndexJson skills)) des)"
    by (auto simp: writeFileSync_def split: option.splits node.splits)
  have "lookup d ''skills_index.json'' = Some (File (IndexJson skills))"
    by (simp add: d lookup_def map_of_put_entry)
  moreover have "\<forall>n. n \<noteq> ''skills_index.json'' \<longrightarrow> lookup d n = lookup targetDir n"
    by (simp add: d des lookup_def map_of_put_entry)
  ultimately show "\<exists>skills. processDir ''skills'' es [] [] = Inr skills
           \<and> lookup d ''skills_index.json'' = Some (File (IndexJson skills))
           \<and> (\<forall>n. n \<noteq> ''skills_index.json'' \<longrightarrow> lookup d n = lookup targetDir n)
           \<and> msgs = (if quiet then [] else [GeneratedIndex (length skills)])
           \<and> skills = []"
    using s m e by blast
qed

theorem index_overwritten_when_skills_exist_witness:
  "lookup (Dir [(''skills_index.json'', File (IndexJson
        [\<lparr> skill_id = ''old'', skill_path = ''.agent/skills/old'', skill_category = ''general'',
           skill_name = ''old'', skill_description = '''', skill_risk = ''low'',
           skill_source = ''local'' \<rparr>]))]) ''skills'' = None
   \<and> lookup (Dir [(''skills'', Dir [(''README.md'', File (Text ''about'')),
                                    (''cat'', Dir [(''a'', Dir [(''SKILL.md'', File (Text ''skill a''))])])]),
                 (''skills_index.json'', File (IndexJson
        [\<lparr> skill_id = ''old'', skill_path = ''.agent/skills/old'', skill_category = ''general'',
           skill_name = ''old'', skill_description = '''', skill_risk = ''low'',
           skill_source = ''local'' \<rparr>]))]) ''skills''
       = Some (Dir [(''README.md'', File (Text ''about'')),
                    (''cat'', Dir [(''a'', Dir [(''SKILL.md'', File (Text ''skill a''))])])])
   \<and> generateSkillsIndex
         (Dir [(''skills'', Dir [(''README.md'', File (Text ''about'')),
                                 (''cat'', Dir [(''a'', Dir [(''SKILL.md'', File (Text ''skill a''))])])]),
               (''skills_index.json'', File (IndexJson
        [\<lparr> skill_id = ''old'', skill_path = ''.agent/skills/old'', skill_category = ''general'',
           skill_name = ''old'', skill_description = '''', skill_risk = ''low'',
           skill_source = ''local'' \<rparr>]))]) False
       = Inr (Dir [(''skills'', Dir [(''README.md'', File (Text ''about'')),
                                     (''cat'', Dir [(''a'', Dir [(''SKILL.md'', File (Text ''skill a''))])])]),
                   (''skills_index.json'', File (IndexJson []))],
              [GeneratedIndex 0])
   \<and> generateSkillsIndex (Dir [(''skills_index.json'', File (IndexJson
        [\<lparr> skill_id = ''old'', skill_path = ''.agent/skills/old'', skill_category = ''general'',
           skill_name = ''old'', skill_description = '''', skill_risk = ''low'',
           skill_source = ''local'' \<rparr>]))]) False
       = Inr (Dir [(''skills_index.json'', File (IndexJson
        [\<lparr> skill_id = ''old'', skill_path = ''.agent/skills/old'', skill_category = ''general'',
           skill_name = ''old'', skill_description = '''', skill_risk = ''low'',
           skill_source = ''local'' \<rparr>]))], [NoSkillsFolder])
   \<and> (\<exists>skills. processDir ''skills''
           [(''README.md'', File (Text ''about'')),
            (''cat'', Dir [(''a'', Dir [(''SKILL.md'', File (Text ''skill a''))])])] [] []
          = Inr skills
         \<and> skills = []
         \<and> lookup (Dir [(''skills'', Dir [(''README.md'', File (Text ''about'')),
                                     (''cat'', Dir [(''a'', Dir [(''SKILL.md'', File (Text ''skill a''))])])]),
                   (''skills_index.json'', File (IndexJson []))])
               ''skills_index.json'' = Some (File (IndexJson skills)))"
proof -
  let ?old = "File (IndexJson
        [\<lparr> skill_id = ''old'', skill_path = ''.agent/skills/old'', skill_category = ''general'',
           skill_name = ''old'', skill_description = '''', skill_risk = ''low'',
           skill_source = ''local'' \<rparr>])"
  let ?sk = "[(''README.md'', File (Text ''about'')),
              (''cat'', Dir [(''a'', Dir [(''SKILL.md'', File (Text ''skill a''))])])]"
  let ?t1 = "Dir [(''skills_index.json'', ?old)]"
  let ?t2 = "Dir [(''skills'', Dir ?sk), (''skills_index.json'', ?old)]"
  let ?d2 = "Dir [(''skills'', Dir ?sk), (''skills_index.json'', File (IndexJson []))]"
  have h1: "lookup ?t1 ''skills'' = None" by (simp add: lookup_def)
  have h2: "lookup ?t2 ''skills'' = Some (Dir ?sk)" by (simp add: lookup_def)
  have g2: "generateSkillsIndex ?t2 False = Inr (?d2, [GeneratedIndex 0])"
    by (simp add: index_eval)
  note T = index_overwritten_when_skills_exist
    [where targetDir = ?t1 and quiet = False]
  from T [THEN conjunct1] h1
  have g1: "generateSkillsIndex ?t1 False = Inr (?t1, [NoSkillsFolder])" by simp
  from index_overwritten_when_skills_exist
         [where targetDir = ?t2 and quiet = False and es = ?sk and d = ?d2
            and msgs = "[GeneratedIndex 0]", THEN conjunct2] h2 g2
  have c: "\<exists>skills. processDir ''skills'' ?sk [] [] = Inr skills
         \<and> skills = []
         \<and> lookup ?d2 ''skills_index.json'' = Some (File (IndexJson skills))"
    by blast
  from h1 h2 g2 g1 c show ?thesis by (intro conjI)
qed

text \<open>C4 as stated does not hold: without a \<^verbatim>\<open>skills\<close> directory a prior index is not
  replaced by an empty one, and in quiet mode (as \<^verbatim>\<open>syncCommand\<close> calls it) nothing is
  logged.\<close>

theorem index_kept_without_skills_counterexample:
  "generateSkillsIndex
     (Dir [(''skills_index.json'', File (IndexJson
        [\<lparr> skill_id = ''old'', skill_path = ''.agent/skills/old'', skill_category = ''general'',
           skill_name = ''old'', skill_description = '''', skill_risk = ''low'',
           skill_source = ''local'' \<rparr>]))]) True
   = Inr (Dir [(''skills_index.json'', File (IndexJson
        [\<lparr> skill_id = ''old'', skill_path = ''.agent/skills/old'', skill_category = ''general'',
           skill_name = ''old'', skill_description = '''', skill_risk = ''low'',
           skill_source = ''local'' \<rparr>]))], [])"
  by (simp add: generateSkillsIndex_def lookup_def)

text \<open>C5.  What the code does on the claim's input: a skill folder whose marker file is
  named \<^verbatim>\<open>skill.md\<close> passes the case-insensitive test, and the read that follows asks for
  the name \<^verbatim>\<open>SKILL.md\<close> exactly; where names are case-sensitive the read raises, and the
  whole index generation ends with that error and writes no index.\<close>

theorem lowercase_marker_read_raises:
  "hasSkillMd [(''skill.md'', File (Text ''---\<newline>name: Foo\<newline>description: Bar\<newline>---''))]
   \<and> generateSkillsIndex
        (Dir [(''skills'', Dir [(''foo'',
           Dir [(''skill.md'', File (Text ''---\<newline>name: Foo\<newline>description: Bar\<newline>---''))])])])
        True
      = Inl ENOENT"
  by (simp add: index_eval)

text \<open>C8.  What the code does on the claim's input, a skills folder with one skill folder at
  top level and one category folder holding two skill folders: the scan reaches the skill
  folder at top level, and building its entry raises \<^verbatim>\<open>ReferenceError\<close>; the error leaves
  the index generation and no index is written. With the
  category folder alone the run returns, and the index it writes is empty: the children of
  \<^verbatim>\<open>skills\<close> are processed with their own name as parent category, so the category folder,
  having a non-empty parent category, is not descended into, and its two skill folders are
  never looked at. There are no three entries in either case.\<close>

theorem nested_skills_not_indexed:
  "processDir ''skills''
     [(''top'', Dir [(''SKILL.md'', File (Text ''top skill''))]),
      (''cat'', Dir [(''a'', Dir [(''SKILL.md'', File (Text ''skill a''))]),
                    (''b'', Dir [(''SKILL.md'', File (Text ''skill b''))])])] [] []
     = Inl ReferenceError
   \<and> generateSkillsIndex
       (Dir [(''skills'', Dir
          [(''top'', Dir [(''SKILL.md'', File (Text ''top skill''))]),
           (''cat'', Dir [(''a'', Dir [(''SKILL.md'', File (Text ''skill a''))]),
                         (''b'', Dir [(''SKILL.md'', File (Text ''skill b''))])])])]) True
     = Inl ReferenceError
   \<and> processDir ''cat''
       [(''a'', Dir [(''SKILL.md'', File (Text ''skill a''))]),
        (''b'', Dir [(''SKILL.md'', File (Text ''skill b''))])] ''cat'' []
     = Inr []
   \<and> generateSkillsIndex
       (Dir [(''skills'', Dir
          [(''cat'', Dir [(''a'', Dir [(''SKILL.md'', File (Text ''skill a''))]),
                         (''b'', Dir [(''SKILL.md'', File (Text ''skill b''))])])])]) True
     = Inr (Dir [(''skills'', Dir
              [(''cat'', Dir [(''a'', Dir [(''SKILL.md'', File (Text ''skill a''))]),
                             (''b'', Dir [(''SKILL.md'', File (Text ''skill b''))])])]),
                 (''skills_index.json'', File (IndexJson []))], [])"
  by (simp add: index_eval)

text \<open>C9.  What the code does on the claim's input, a skill folder whose marker file begins
  with a frontmatter block holding \<^verbatim>\<open>name: Foo\<close> and \<^verbatim>\<open>description: Bar\<close>: the two local
  variables get the values \<^verbatim>\<open>Foo\<close> and \<^verbatim>\<open>Bar\<close> (and, for a marker file without a block, the
  folder name and the empty string), but no index entry results from them: building the
  entry raises \<^verbatim>\<open>ReferenceError\<close>, the error leaves the index generation and no index is
  written.\<close>

theorem frontmatter_entry_never_built:
  "frontmatterFields ''foo''
       (Text ''---\<newline>name: Foo\<newline>description: Bar\<newline>---\<newline>body'') = (''Foo'', ''Bar'')
   \<and> frontmatterFields ''foo'' (Text ''no block here'') = (''foo'', '''')
   \<and> skillEntry ''foo'' ''foo''
       (Text ''---\<newline>name: Foo\<newline>description: Bar\<newline>---\<newline>body'') = Inl ReferenceError
   \<and> generateSkillsIndex
       (Dir [(''skills'', Dir [(''foo'', Dir [(''SKILL.md'',
          File (Text ''---\<newline>name: Foo\<newline>description: Bar\<newline>---\<newline>body''))])])]) True
     = Inl ReferenceError
   \<and> generateSkillsIndex
       (Dir [(''skills'', Dir [(''foo'', Dir [(''SKILL.md'', File (Text ''no block here''))])])])
       True
     = Inl ReferenceError"
  by (simp add: index_eval)

end
